theory Spec2Isabelle
  imports
    Main
    "HOL-Library.Word"
    "HOL-Library.Char_ord"
    "HOL-Library.List_Lexorder"
begin

section \<open>Go library functions used by the device plugin\<close>

text \<open>
  Go strings are byte sequences; a \<^typ>\<open>string\<close> here is the list of those bytes.
  With the library theories \<^verbatim>\<open>Char_ord\<close> and \<^verbatim>\<open>List_Lexorder\<close> the order on
  \<^typ>\<open>string\<close> is the bytewise lexicographic one, which is Go's \<^verbatim>\<open><\<close> on strings and
  therefore the order of \<^verbatim>\<open>sort.Strings\<close>.
\<close>

type_synonym byte = "8 word"

subsection \<open>\<^verbatim>\<open>strconv.FormatUint(u, 10)\<close> and \<^verbatim>\<open>fmt\<close>'s integer verb\<close>

definition digit10 :: "nat \<Rightarrow> char" where
  "digit10 d = ''0123456789'' ! (d mod 10)"

fun FormatUint :: "nat \<Rightarrow> string" where
  "FormatUint u = (if u < 10 then [digit10 u] else FormatUint (u div 10) @ [digit10 (u mod 10)])"

declare FormatUint.simps [simp del]

text \<open>
  \<^verbatim>\<open>fmt\<close>'s \<^verbatim>\<open>fmtInteger\<close> for base 10 and an unsigned argument, with the flags \<^verbatim>\<open>+\<close> and
  \<^verbatim>\<open>0\<close> and a width (\<open>0\<close> for no width). With the zero flag the width becomes the
  minimal number of digits, less one when a sign is printed; the sign is written in
  front of the digits, and what is still missing to the width is filled with blanks.
\<close>

definition fmtInteger :: "bool \<Rightarrow> bool \<Rightarrow> nat \<Rightarrow> nat \<Rightarrow> string" where
  "fmtInteger plusFlag zeroFlag wid u =
     (let prec = (if zeroFlag \<and> 0 < wid then (if plusFlag then wid - 1 else wid) else 0);
          ds = FormatUint u;
          padded = replicate (prec - length ds) CHR ''0'' @ ds;
          signed = (if plusFlag then CHR ''+'' # padded else padded)
      in replicate (wid - length signed) CHR '' '' @ signed)"

subsection \<open>\<^verbatim>\<open>fmt.Sprintf("%x", b)\<close> on a byte slice\<close>

definition hexdigit :: "nat \<Rightarrow> char" where
  "hexdigit d = ''0123456789abcdef'' ! (d mod 16)"

definition Sprintf_x :: "byte list \<Rightarrow> string" where
  "Sprintf_x bs = concat (map (\<lambda>b. [hexdigit (unat b div 16), hexdigit (unat b mod 16)]) bs)"

subsection \<open>Errors and loops\<close>

text \<open>
  An \<^verbatim>\<open>error\<close> returned by a function of the plugin, or the run-time panic of an index
  out of range, which ends the process.
\<close>

datatype error =
    ErrBadPattern
  | IndexOutOfRange
  | FailedToDiscover error
  | DeviceDoesNotExist string
  | DeviceNotHealthy string
  | ErrNotExist
  | ErrSyntax
  | ErrRange
  | MalformedDeviceData string error
  | NotADirectory

text \<open>
  \<^verbatim>\<open>for _, x := range xs { body }\<close> over a state \<open>s\<close>, where the body can leave the
  function with an error.
\<close>

fun forEach :: "('a \<Rightarrow> 's \<Rightarrow> error + 's) \<Rightarrow> 'a list \<Rightarrow> 's \<Rightarrow> error + 's" where
  "forEach body [] s = Inr s"
| "forEach body (x # xs) s = (case body x s of Inl e \<Rightarrow> Inl e | Inr s' \<Rightarrow> forEach body xs s')"

text \<open>\<^verbatim>\<open>xs[i]\<close>, which panics out of range.\<close>

definition index :: "'a list \<Rightarrow> nat \<Rightarrow> error + 'a" where
  "index xs i = (if i < length xs then Inr (xs ! i) else Inl IndexOutOfRange)"

section \<open>Device specifications and devices (\<^verbatim>\<open>deviceplugin/generic.go\<close>, \<^verbatim>\<open>path.go\<close>)\<close>

text \<open>
  The types of the plugin with device groups: \<^verbatim>\<open>PathType\<close> is a string type with two named
  values, and the \<^verbatim>\<open>switch\<close> of discovery has no default case, so a path of any other type
  is hashed but adds neither a device spec nor a mount.
\<close>

type_synonym PathType = string

definition DevicePathType :: PathType where
  "DevicePathType = ''Device''"

definition MountPathType :: PathType where
  "MountPathType = ''Mount''"

record Path =
  Path :: string
  MountPath :: string
  Permissions :: string
  ReadOnly :: bool
  Type :: PathType

text \<open>
  \<^verbatim>\<open>Count\<close> is a \<^verbatim>\<open>uint\<close>. It only bounds the loop \<^verbatim>\<open>for j := uint(0); j < group.Count; j++\<close>,
  whose counter stays below it and never wraps, so it is a natural number here.
\<close>

record Group =
  Paths :: "Path list"
  Count :: nat

record DeviceSpec =
  Name :: string
  Groups :: "Group list"

text \<open>\<^verbatim>\<open>DeviceSpec.Default\<close>: the defaults of the fields that can be left empty.\<close>

definition Default_Path :: "Path \<Rightarrow> Path" where
  "Default_Path p =
     (let p1 = (if Type p = [] then p\<lparr>Type := DevicePathType\<rparr> else p)
      in if Type p1 = DevicePathType \<and> Permissions p1 = [] then p1\<lparr>Permissions := ''mrw''\<rparr> else p1)"

definition Default_Group :: "Group \<Rightarrow> Group" where
  "Default_Group g =
     (let g1 = (if Count g = 0 then g\<lparr>Count := 1\<rparr> else g)
      in g1\<lparr>Paths := map Default_Path (Paths g1)\<rparr>)"

definition Default :: "DeviceSpec \<Rightarrow> DeviceSpec" where
  "Default d = d\<lparr>Groups := map Default_Group (Groups d)\<rparr>"

text \<open>
  The kubelet API's \<^verbatim>\<open>v1beta1.DeviceSpec\<close> and \<^verbatim>\<open>v1beta1.Mount\<close>, and the plugin's
  \<^verbatim>\<open>device\<close>, which embeds \<^verbatim>\<open>v1beta1.Device\<close> (fields \<^verbatim>\<open>ID\<close> and \<^verbatim>\<open>Health\<close>).
\<close>

record v1beta1_DeviceSpec =
  ContainerPath :: string
  HostPath :: string
  ds_Permissions :: string

record v1beta1_Mount =
  mnt_ContainerPath :: string
  mnt_HostPath :: string
  mnt_ReadOnly :: bool

definition Healthy :: string where
  "Healthy = ''Healthy''"

definition Unhealthy :: string where
  "Unhealthy = ''Unhealthy''"

record device =
  ID :: string
  Health :: string
  deviceSpecs :: "v1beta1_DeviceSpec list"
  mounts :: "v1beta1_Mount list"

section \<open>Path discovery (\<^verbatim>\<open>GenericPlugin.discoverPath\<close>, \<^verbatim>\<open>GenericPlugin.discover\<close>)\<close>

text \<open>
  The host is a parameter of discovery: \<open>glob\<close> is \<^verbatim>\<open>filepath.Glob\<close> on the current file
  system (the matches of a pattern, or \<^verbatim>\<open>ErrBadPattern\<close>), and \<open>sha1\<close> is the digest of
  \<^verbatim>\<open>crypto/sha1\<close>. A \<^verbatim>\<open>hash.Hash\<close> is modelled by the bytes written to it so far:
  \<^verbatim>\<open>sha1.New()\<close> is the empty string, \<^verbatim>\<open>h.Write(b)\<close> appends \<open>b\<close>, and \<^verbatim>\<open>h.Sum(nil)\<close> is
  \<open>sha1\<close> of what was written.
\<close>

type_synonym glob_fn = "string \<Rightarrow> error + string list"
type_synonym sha1_fn = "string \<Rightarrow> byte list"

text \<open>
  The first loop of a group: \<^verbatim>\<open>paths[i]\<close> becomes the sorted matches of the \<open>i\<close>-th
  pattern, and \<^verbatim>\<open>length\<close> is updated by
  \<^verbatim>\<open>if length == 0 || len(matches) < length { length = len(matches) }\<close>.
\<close>

definition globStep :: "glob_fn \<Rightarrow> nat \<times> Path \<Rightarrow> string list list \<times> nat \<Rightarrow> error + string list list \<times> nat" where
  "globStep glob ip s =
     (case ip of (i, path) \<Rightarrow> case s of (paths, len) \<Rightarrow>
        (case glob (Path path) of
           Inl err \<Rightarrow> Inl err
         | Inr found \<Rightarrow>
             (let matches = sort found
              in Inr (paths[i := matches],
                      if len = 0 \<or> length matches < len then length matches else len))))"

text \<open>
  One round of the innermost loop, for the \<open>k\<close>-th path of the group, the match index
  \<open>i\<close>, the hash \<open>h\<close> and the device \<open>d\<close> under construction. Every round reads
  \<^verbatim>\<open>paths[k][i]\<close> (at the latest in \<^verbatim>\<open>h.Write\<close>), so the round panics when the index is
  out of range.
\<close>

definition addPath :: "string list list \<Rightarrow> nat \<Rightarrow> nat \<times> Path \<Rightarrow> string \<times> device \<Rightarrow> error + string \<times> device" where
  "addPath paths i kp s =
     (case kp of (k, path) \<Rightarrow> case s of (h, d) \<Rightarrow>
        (case index paths k of
           Inl err \<Rightarrow> Inl err
         | Inr row \<Rightarrow>
            (case index row i of
               Inl err \<Rightarrow> Inl err
             | Inr host \<Rightarrow>
                (let mountPath = (if MountPath path = [] then host else MountPath path);
                     d1 = (if Type path = DevicePathType
                           then d\<lparr>deviceSpecs := deviceSpecs d @
                                  [\<lparr>ContainerPath = mountPath, HostPath = host,
                                    ds_Permissions = Permissions path\<rparr>]\<rparr>
                           else if Type path = MountPathType
                           then d\<lparr>mounts := mounts d @
                                  [\<lparr>mnt_ContainerPath = mountPath, mnt_HostPath = host,
                                    mnt_ReadOnly = ReadOnly path\<rparr>]\<rparr>
                           else d)
                 in Inr (h @ host, d1)))))"

text \<open>The device for match index \<open>i\<close> and repetition \<open>j\<close> of a group.\<close>

definition buildDevice :: "sha1_fn \<Rightarrow> Group \<Rightarrow> string list list \<Rightarrow> nat \<Rightarrow> nat \<Rightarrow> error + device" where
  "buildDevice sha1 grp paths i j =
     (case forEach (addPath paths i) (enumerate 0 (Paths grp))
             (FormatUint j, \<lparr>ID = [], Health = Healthy, deviceSpecs = [], mounts = []\<rparr>) of
        Inl err \<Rightarrow> Inl err
      | Inr (h, d) \<Rightarrow> Inr (d\<lparr>ID := Sprintf_x (sha1 h)\<rparr>))"

definition appendDevice :: "sha1_fn \<Rightarrow> Group \<Rightarrow> string list list \<Rightarrow> nat \<Rightarrow> nat \<Rightarrow> device list \<Rightarrow> error + device list" where
  "appendDevice sha1 grp paths i j devices =
     (case buildDevice sha1 grp paths i j of
        Inl err \<Rightarrow> Inl err
      | Inr d \<Rightarrow> Inr (devices @ [d]))"

text \<open>The body of the loop over the groups.\<close>

definition discoverGroup :: "sha1_fn \<Rightarrow> glob_fn \<Rightarrow> Group \<Rightarrow> device list \<Rightarrow> error + device list" where
  "discoverGroup sha1 glob grp devices =
     (case forEach (globStep glob) (enumerate 0 (Paths grp))
             (replicate (length (Paths grp)) [], 0) of
        Inl err \<Rightarrow> Inl err
      | Inr (paths, len) \<Rightarrow>
          forEach (\<lambda>i. forEach (appendDevice sha1 grp paths i) [0..<Count grp]) [0..<len] devices)"

definition discoverPath :: "sha1_fn \<Rightarrow> glob_fn \<Rightarrow> DeviceSpec \<Rightarrow> error + device list" where
  "discoverPath sha1 glob ds = forEach (discoverGroup sha1 glob) (Groups ds) []"

text \<open>
  \<^verbatim>\<open>GenericPlugin.discover\<close> of the plugin before USB support has the body of
  \<^verbatim>\<open>discoverPath\<close>, statement by statement.
\<close>

definition discover :: "sha1_fn \<Rightarrow> glob_fn \<Rightarrow> DeviceSpec \<Rightarrow> error + device list" where
  "discover sha1 glob ds = forEach (discoverGroup sha1 glob) (Groups ds) []"

subsection \<open>What the loops compute\<close>

text \<open>
  The sorted matches of a path's pattern, and the device that match index \<open>i\<close> and
  repetition \<open>j\<close> stand for: the \<open>i\<close>-th sorted match of every path of the group, in
  the order of the group.
\<close>

definition matchesOf :: "glob_fn \<Rightarrow> Path \<Rightarrow> string list" where
  "matchesOf glob p = (case glob (Path p) of Inl err \<Rightarrow> [] | Inr found \<Rightarrow> sort found)"

definition shortest :: "nat \<Rightarrow> nat list \<Rightarrow> nat" where
  "shortest len ns = foldl (\<lambda>len n. if len = 0 \<or> n < len then n else len) len ns"

text \<open>
  \<open>shortestLength\<close> is the value of \<^verbatim>\<open>length\<close> after the first loop of a group whose patterns
  are all well-formed.
\<close>

definition shortestLength :: "glob_fn \<Rightarrow> Path list \<Rightarrow> nat" where
  "shortestLength glob ps = shortest 0 (map (\<lambda>p. length (matchesOf glob p)) ps)"

definition minMatchCount :: "glob_fn \<Rightarrow> Path list \<Rightarrow> nat" where
  "minMatchCount glob ps = (if ps = [] then 0 else Min (set (map (\<lambda>p. length (matchesOf glob p)) ps)))"

definition containerPath :: "Path \<Rightarrow> string \<Rightarrow> string" where
  "containerPath p host = (if MountPath p = [] then host else MountPath p)"

definition unitDeviceSpecs :: "glob_fn \<Rightarrow> Path list \<Rightarrow> nat \<Rightarrow> v1beta1_DeviceSpec list" where
  "unitDeviceSpecs glob ps i =
     map (\<lambda>p. \<lparr>ContainerPath = containerPath p (matchesOf glob p ! i),
               HostPath = matchesOf glob p ! i, ds_Permissions = Permissions p\<rparr>)
       (filter (\<lambda>p. Type p = DevicePathType) ps)"

definition unitMounts :: "glob_fn \<Rightarrow> Path list \<Rightarrow> nat \<Rightarrow> v1beta1_Mount list" where
  "unitMounts glob ps i =
     map (\<lambda>p. \<lparr>mnt_ContainerPath = containerPath p (matchesOf glob p ! i),
               mnt_HostPath = matchesOf glob p ! i, mnt_ReadOnly = ReadOnly p\<rparr>)
       (filter (\<lambda>p. Type p = MountPathType) ps)"

definition digestInput :: "glob_fn \<Rightarrow> Path list \<Rightarrow> nat \<Rightarrow> nat \<Rightarrow> string" where
  "digestInput glob ps i j = FormatUint j @ concat (map (\<lambda>p. matchesOf glob p ! i) ps)"

definition zipUnit :: "sha1_fn \<Rightarrow> glob_fn \<Rightarrow> Path list \<Rightarrow> nat \<Rightarrow> nat \<Rightarrow> device" where
  "zipUnit sha1 glob ps i j =
     \<lparr>ID = Sprintf_x (sha1 (digestInput glob ps i j)), Health = Healthy,
      deviceSpecs = unitDeviceSpecs glob ps i, mounts = unitMounts glob ps i\<rparr>"

section \<open>The inventory (\<^verbatim>\<open>GenericPlugin.refreshDevices\<close>)\<close>

text \<open>
  The plugin's state: its device specification, the device map guarded by the mutex, and
  the two metrics (the gauge holds the number of devices of the last discovery, the
  counter the number of container responses handed out).
\<close>

record GenericPlugin =
  ds :: DeviceSpec
  devices :: "string \<rightharpoonup> device"
  deviceGauge :: nat
  allocationsCounter :: nat

definition NewGenericPlugin :: "DeviceSpec \<Rightarrow> GenericPlugin" where
  "NewGenericPlugin spec = \<lparr>ds = spec, devices = Map.empty, deviceGauge = 0, allocationsCounter = 0\<rparr>"

text \<open>
  One round of the loop that fills the new map:
  \<^verbatim>\<open>gp.devices[d.ID] = d; if _, ok := old[d.ID]; !ok { equal = false }\<close>.
\<close>

definition refreshStep :: "(string \<rightharpoonup> device) \<Rightarrow> device \<Rightarrow> (string \<rightharpoonup> device) \<times> bool \<Rightarrow> (string \<rightharpoonup> device) \<times> bool" where
  "refreshStep old d s = (case s of (new, equal) \<Rightarrow>
     (new(ID d \<mapsto> d), if old (ID d) = None then False else equal))"

text \<open>
  \<^verbatim>\<open>refreshDevices\<close> returns the boolean and the error, and leaves the new state. A
  discovery error is wrapped and leaves the state as it was; a panic of discovery ends the
  process. \<^verbatim>\<open>var equal bool\<close> starts as \<^verbatim>\<open>false\<close>. The last loop returns \<^verbatim>\<open>false\<close> at
  the first key of the old map that the new map lacks.
\<close>

definition refreshDevices :: "sha1_fn \<Rightarrow> glob_fn \<Rightarrow> GenericPlugin \<Rightarrow> (error + bool) \<times> GenericPlugin" where
  "refreshDevices sha1 glob gp =
     (case discover sha1 glob (ds gp) of
        Inl IndexOutOfRange \<Rightarrow> (Inl IndexOutOfRange, gp)
      | Inl err \<Rightarrow> (Inl (FailedToDiscover err), gp)
      | Inr found \<Rightarrow>
          (let gp1 = gp\<lparr>deviceGauge := length found\<rparr>;
               old = devices gp1;
               (new, equal) = fold (refreshStep old) found (Map.empty, False);
               gp2 = gp1\<lparr>devices := new\<rparr>
           in if \<not> equal then (Inr False, gp2)
              else if \<exists>k \<in> dom old. new k = None then (Inr False, gp2)
              else (Inr True, gp2)))"

text \<open>\<^verbatim>\<open>GetDeviceState\<close> ignores its argument.\<close>

definition GetDeviceState :: "GenericPlugin \<Rightarrow> string \<Rightarrow> string" where
  "GetDeviceState gp devID = Healthy"

section \<open>Allocation (\<^verbatim>\<open>GenericPlugin.Allocate\<close>)\<close>

record ContainerAllocateResponse =
  Devices :: "v1beta1_DeviceSpec list"
  Mounts :: "v1beta1_Mount list"

text \<open>
  An \<^verbatim>\<open>AllocateRequest\<close> is the list of its container requests, each the list of its
  \<^verbatim>\<open>DevicesIDs\<close>; an \<^verbatim>\<open>AllocateResponse\<close> is the list of its container responses.
\<close>

definition allocateID :: "GenericPlugin \<Rightarrow> string \<Rightarrow> ContainerAllocateResponse \<Rightarrow> error + ContainerAllocateResponse" where
  "allocateID gp devID resp =
     (case devices gp devID of
        None \<Rightarrow> Inl (DeviceDoesNotExist devID)
      | Some d \<Rightarrow>
          if Health d \<noteq> Healthy then Inl (DeviceNotHealthy devID)
          else Inr (resp\<lparr>Devices := Devices resp @ deviceSpecs d, Mounts := Mounts resp @ mounts d\<rparr>))"

definition allocateContainer :: "GenericPlugin \<Rightarrow> string list \<Rightarrow> ContainerAllocateResponse list \<Rightarrow> error + ContainerAllocateResponse list" where
  "allocateContainer gp r res =
     (case forEach (allocateID gp) r \<lparr>Devices = [], Mounts = []\<rparr> of
        Inl err \<Rightarrow> Inl err
      | Inr resp \<Rightarrow> Inr (res @ [resp]))"

definition Allocate :: "GenericPlugin \<Rightarrow> string list list \<Rightarrow> (error + ContainerAllocateResponse list) \<times> GenericPlugin" where
  "Allocate gp req =
     (case forEach (allocateContainer gp) req [] of
        Inl err \<Rightarrow> (Inl err, gp)
      | Inr res \<Rightarrow> (Inr res, gp\<lparr>allocationsCounter := allocationsCounter gp + length res\<rparr>))"

text \<open>
  The states of a running plugin: the new plugin, and what refreshes (against any file
  system) and allocations make of it.
\<close>

inductive reachable :: "GenericPlugin \<Rightarrow> bool" where
  reachable_new: "reachable (NewGenericPlugin spec)"
| reachable_refresh: "reachable gp \<Longrightarrow> reachable (snd (refreshDevices sha1 glob gp))"
| reachable_Allocate: "reachable gp \<Longrightarrow> reachable (snd (Allocate gp req))"

section \<open>USB devices (\<^verbatim>\<open>deviceplugin/usb.go\<close>)\<close>

type_synonym USBID = "16 word"

record usbDevice =
  Vendor :: USBID
  Product :: USBID
  Bus :: "16 word"
  BusDevice :: "16 word"

text \<open>
  A \<^verbatim>\<open>USBSpec\<close> of a group names a vendor and a product, and nothing else.
\<close>

record USBSpec =
  spec_Vendor :: USBID
  spec_Product :: USBID

text \<open>
  \<^verbatim>\<open>usbDevBus = "/dev/bus/usb/%+04d/%+04d"\<close>: two literal segments and two directives
  \<^verbatim>\<open>%+04d\<close> (flags \<^verbatim>\<open>+\<close> and \<^verbatim>\<open>0\<close>, width 4), applied to \<^verbatim>\<open>dev.Bus\<close> and
  \<^verbatim>\<open>dev.BusDevice\<close> by \<^verbatim>\<open>fmt.Sprintf\<close>.
\<close>

definition BusPath :: "usbDevice \<Rightarrow> string" where
  "BusPath dev =
     ''/dev/bus/usb/'' @ fmtInteger True True 4 (unat (Bus dev)) @ ''/''
       @ fmtInteger True True 4 (unat (BusDevice dev))"

subsection \<open>Reading a device directory\<close>

text \<open>
  \<^verbatim>\<open>strconv.ParseUint(s, 16, 16)\<close>: the empty string and a byte that is not a hexadecimal
  digit are syntax errors (with an explicit base there is no prefix, sign or underscore),
  a value above \<^verbatim>\<open>0xffff\<close> is a range error.
\<close>

definition hexValue :: "char \<Rightarrow> nat option" where
  "hexValue c = map_of
     [(CHR ''0'', 0), (CHR ''1'', 1), (CHR ''2'', 2), (CHR ''3'', 3), (CHR ''4'', 4),
      (CHR ''5'', 5), (CHR ''6'', 6), (CHR ''7'', 7), (CHR ''8'', 8), (CHR ''9'', 9),
      (CHR ''a'', 10), (CHR ''b'', 11), (CHR ''c'', 12), (CHR ''d'', 13), (CHR ''e'', 14),
      (CHR ''f'', 15), (CHR ''A'', 10), (CHR ''B'', 11), (CHR ''C'', 12), (CHR ''D'', 13),
      (CHR ''E'', 14), (CHR ''F'', 15)] c"

definition parseDigit :: "char \<Rightarrow> nat \<Rightarrow> error + nat" where
  "parseDigit c n =
     (case hexValue c of
        None \<Rightarrow> Inl ErrSyntax
      | Some d \<Rightarrow> if 65535 < n * 16 + d then Inl ErrRange else Inr (n * 16 + d))"

definition ParseUint_16_16 :: "string \<Rightarrow> error + nat" where
  "ParseUint_16_16 s = (if s = [] then Inl ErrSyntax else forEach parseDigit s 0)"

text \<open>
  A directory entry of \<^verbatim>\<open>/sys/bus/usb/devices/\<close>: its name, whether it is a directory, and
  the content of the attribute files in it (a file that is not there cannot be read).
  \<^verbatim>\<open>readFileToUint16\<close> drops the newlines of a file and parses the rest as a hexadecimal
  number of 16 bits, for \<^verbatim>\<open>busnum\<close> and \<^verbatim>\<open>devnum\<close> as for \<^verbatim>\<open>idVendor\<close> and \<^verbatim>\<open>idProduct\<close>.
\<close>

record DirEntry =
  entryName :: string
  IsDir :: bool
  attributeFiles :: "string \<rightharpoonup> string"

definition readFileToUint16 :: "DirEntry \<Rightarrow> string \<Rightarrow> error + 16 word" where
  "readFileToUint16 dir file =
     (case attributeFiles dir file of
        None \<Rightarrow> Inl ErrNotExist
      | Some bytes \<Rightarrow>
          (let datastr = filter (\<lambda>c. c \<noteq> CHR 0x0A) bytes
           in case ParseUint_16_16 datastr of
                Inl err \<Rightarrow> Inl (MalformedDeviceData datastr err)
              | Inr dAsInt \<Rightarrow> Inr (of_nat dAsInt)))"

definition queryUSBDeviceCharacteristicsByDirectory :: "DirEntry \<Rightarrow> error + usbDevice" where
  "queryUSBDeviceCharacteristicsByDirectory dir =
     (if \<not> IsDir dir then Inl NotADirectory
      else case readFileToUint16 dir ''idVendor'' of
        Inl err \<Rightarrow> Inl err
      | Inr vnd \<Rightarrow>
       (case readFileToUint16 dir ''idProduct'' of
        Inl err \<Rightarrow> Inl err
      | Inr prd \<Rightarrow>
       (case readFileToUint16 dir ''busnum'' of
        Inl err \<Rightarrow> Inl err
      | Inr bus \<Rightarrow>
       (case readFileToUint16 dir ''devnum'' of
        Inl err \<Rightarrow> Inl err
      | Inr busLoc \<Rightarrow> Inr \<lparr>Vendor = vnd, Product = prd, Bus = bus, BusDevice = busLoc\<rparr>))))"

text \<open>
  \<^verbatim>\<open>enumerateUSBDevices\<close> queries every entry in a goroutine of its own and collects the
  devices of the queries that succeed, in the order in which the goroutines deliver them.
  \<open>queriedDevices\<close> lists those devices in the order of the directory; the enumeration
  is some reordering of it.
\<close>

definition queriedDevices :: "DirEntry list \<Rightarrow> usbDevice list" where
  "queriedDevices entries =
     concat (map (\<lambda>dir. case queryUSBDeviceCharacteristicsByDirectory dir of
                           Inl err \<Rightarrow> [] | Inr dev \<Rightarrow> [dev]) entries)"

text \<open>
  \<^verbatim>\<open>searchUSBDevices\<close> appends every device of the enumeration whose vendor and product
  equal the arguments; its error result is never assigned. \<^verbatim>\<open>discoverUSB\<close> calls it with
  \<^verbatim>\<open>dev.Vendor\<close> and \<^verbatim>\<open>dev.Product\<close> of each \<^verbatim>\<open>USBSpec\<close> of the group.
\<close>

definition searchUSBDevices :: "usbDevice list \<Rightarrow> USBID \<Rightarrow> USBID \<Rightarrow> error + usbDevice list" where
  "searchUSBDevices devs vendor product =
     Inr (fold (\<lambda>dev found. if Vendor dev = vendor \<and> Product dev = product then found @ [dev] else found)
            devs [])"

section \<open>Notions of the statements\<close>

text \<open>
  What an allocation hands out for a requested id: the device specs and the mounts that
  the device map holds for it.
\<close>

definition requestedSpecs :: "GenericPlugin \<Rightarrow> string \<Rightarrow> v1beta1_DeviceSpec list" where
  "requestedSpecs gp devID = (case devices gp devID of None \<Rightarrow> [] | Some d \<Rightarrow> deviceSpecs d)"

definition requestedMounts :: "GenericPlugin \<Rightarrow> string \<Rightarrow> v1beta1_Mount list" where
  "requestedMounts gp devID = (case devices gp devID of None \<Rightarrow> [] | Some d \<Rightarrow> mounts d)"

text \<open>
  The health invariant of the device map.
\<close>

definition allHealthy :: "GenericPlugin \<Rightarrow> bool" where
  "allHealthy gp = (\<forall>k d. devices gp k = Some d \<longrightarrow> Health d = Healthy)"

text \<open>
  The serial attribute of a device directory (the content of its file \<^verbatim>\<open>serial\<close> without
  newlines, empty without such a file), and the search as claim C8 words it, to compare
  with \<^verbatim>\<open>searchUSBDevices\<close>: the devices of the directory entries that match on vendor,
  product and serial attribute.
\<close>

definition serialAttribute :: "DirEntry \<Rightarrow> string" where
  "serialAttribute dir =
     (case attributeFiles dir ''serial'' of None \<Rightarrow> [] | Some bytes \<Rightarrow> filter (\<lambda>c. c \<noteq> CHR 0x0A) bytes)"

definition spec_searchUSBDevices :: "DirEntry list \<Rightarrow> USBID \<Rightarrow> USBID \<Rightarrow> string \<Rightarrow> usbDevice list" where
  "spec_searchUSBDevices entries vendor product serial =
     concat (map (\<lambda>dir. case queryUSBDeviceCharacteristicsByDirectory dir of
                           Inl err \<Rightarrow> []
                         | Inr dev \<Rightarrow>
                             if Vendor dev = vendor \<and> Product dev = product \<and> serialAttribute dir = serial
                             then [dev] else []) entries)"

section \<open>Cases of the test suite (\<^verbatim>\<open>path_test.go\<close>, \<^verbatim>\<open>usb_test.go\<close>)\<close>

text \<open>
  A \<^verbatim>\<open>Path\<close> literal that sets the pattern only, a file system with the files of the test
  cases, and the device specifications of the cases \<^verbatim>\<open>simple\<close>, \<^verbatim>\<open>only one exists\<close> (also with
  its two paths swapped) and \<^verbatim>\<open>multiple with mount directory\<close>; \<open>simpleTwice\<close> is the first
  with \<^verbatim>\<open>Count = 2\<close>. \<open>cappedGroup\<close> is a group of
  two patterns that match four and two files. The tests call \<^verbatim>\<open>Default\<close> before discovery.
\<close>

definition pathSpec :: "string \<Rightarrow> Path" where
  "pathSpec pattern = \<lparr>Path = pattern, MountPath = [], Permissions = [], ReadOnly = False, Type = []\<rparr>"

definition exampleGlob :: glob_fn where
  "exampleGlob pattern =
     (if pattern = ''/dev/simple'' then Inr [''/dev/simple'']
      else if pattern = ''/dev/does/exist'' then Inr [''/dev/does/exist'']
      else if pattern = ''/dev/ttyUSB*''
        then Inr [''/dev/ttyUSB0'', ''/dev/ttyUSB1'', ''/dev/ttyUSB2'', ''/dev/ttyUSB3'']
      else if pattern = ''/dev/video*'' then Inr [''/dev/video0'', ''/dev/video1'']
      else if pattern = ''['' then Inl ErrBadPattern
      else Inr [])"

definition simpleSpec :: DeviceSpec where
  "simpleSpec = \<lparr>Name = ''simple'', Groups = [\<lparr>Paths = [pathSpec ''/dev/simple''], Count = 0\<rparr>]\<rparr>"

definition simpleTwice :: DeviceSpec where
  "simpleTwice = \<lparr>Name = ''simple'', Groups = [\<lparr>Paths = [pathSpec ''/dev/simple''], Count = 2\<rparr>]\<rparr>"

definition onlyOneExists :: DeviceSpec where
  "onlyOneExists = \<lparr>Name = ''only-one-exists'',
     Groups = [\<lparr>Paths = [pathSpec ''/dev/does/not/exist'', pathSpec ''/dev/does/exist''], Count = 0\<rparr>]\<rparr>"

definition existsFirst :: DeviceSpec where
  "existsFirst = \<lparr>Name = ''only-one-exists'',
     Groups = [\<lparr>Paths = [pathSpec ''/dev/does/exist'', pathSpec ''/dev/does/not/exist''], Count = 0\<rparr>]\<rparr>"


definition cappedGroup :: Group where
  "cappedGroup = Default_Group \<lparr>Paths = [pathSpec ''/dev/ttyUSB*'', pathSpec ''/dev/video*''], Count = 2\<rparr>"

text \<open>
  The plugin after its first refresh on that file system, an inventory of one device with
  a device spec and a mount, and the device directories of the case \<^verbatim>\<open>serial\<close> of
  \<^verbatim>\<open>usb_test.go\<close> with their attribute files.
\<close>

definition refreshedOnce :: "sha1_fn \<Rightarrow> GenericPlugin" where
  "refreshedOnce sha1 = snd (refreshDevices sha1 exampleGlob (NewGenericPlugin (Default simpleSpec)))"

definition exampleInventory :: GenericPlugin where
  "exampleInventory = \<lparr>ds = Default simpleSpec,
     devices = [''a'' \<mapsto> \<lparr>ID = ''a'', Health = Healthy,
        deviceSpecs = [\<lparr>ContainerPath = ''/dev/simple'', HostPath = ''/dev/simple'', ds_Permissions = ''mrw''\<rparr>],
        mounts = [\<lparr>mnt_ContainerPath = ''/data'', mnt_HostPath = ''/srv/data'', mnt_ReadOnly = True\<rparr>]\<rparr>],
     deviceGauge = 1, allocationsCounter = 0\<rparr>"

definition serialCase :: "DirEntry list" where
  "serialCase =
     [\<lparr>entryName = ''3-4'', IsDir = True, attributeFiles =
         [''idVendor'' \<mapsto> ''1050'' @ [CHR 0x0A], ''idProduct'' \<mapsto> ''0407'' @ [CHR 0x0A],
          ''busnum'' \<mapsto> ''3'' @ [CHR 0x0A], ''devnum'' \<mapsto> ''22'' @ [CHR 0x0A],
          ''serial'' \<mapsto> ''51'' @ [CHR 0x0A]]\<rparr>,
      \<lparr>entryName = ''4-4'', IsDir = True, attributeFiles =
         [''idVendor'' \<mapsto> ''1050'' @ [CHR 0x0A], ''idProduct'' \<mapsto> ''0407'' @ [CHR 0x0A],
          ''busnum'' \<mapsto> ''4'' @ [CHR 0x0A], ''devnum'' \<mapsto> ''25'' @ [CHR 0x0A],
          ''serial'' \<mapsto> ''52'' @ [CHR 0x0A]]\<rparr>]"

section \<open>The synthesized USB host path\<close>

lemma FormatUint_small: "u < 10 \<Longrightarrow> FormatUint u = [digit10 u]"
  by (simp add: FormatUint.simps)

lemma FormatUint_large: "10 \<le> u \<Longrightarrow> FormatUint u = FormatUint (u div 10) @ [digit10 (u mod 10)]"
  by (subst FormatUint.simps) simp

lemma replicate_two: "replicate 2 c = [c, c]"
  by (simp add: numeral_2_eq_2)

lemma fmtInteger_plus_sign: "fmtInteger True True 4 u = CHR ''+'' # replicate (3 - length (FormatUint u)) CHR ''0'' @ FormatUint u"
  by (simp add: fmtInteger_def Let_def)

lemma BusPath_sign: "\<exists>rest. BusPath dev = ''/dev/bus/usb/+'' @ rest"
  by (simp add: BusPath_def fmtInteger_plus_sign)

text \<open>
  C3. The spec gives the host path of an enumerated device as \<^verbatim>\<open>/dev/bus/usb/\<close>, the
  3-digit zero-padded bus number, a slash and the 3-digit zero-padded device number,
  \<^verbatim>\<open>/dev/bus/usb/003/022\<close> for bus 3 and device 22. The format string of the code carries
  the \<^verbatim>\<open>+\<close> flag, so \<^verbatim>\<open>BusPath\<close> prints a sign in front of each number: for bus 3 and
  device 22 the code yields \<^verbatim>\<open>/dev/bus/usb/+003/+022\<close>, not the path of the spec and of
  \<^verbatim>\<open>usb_test.go\<close>.
\<close>

theorem BusPath_bus3_dev22:
  "BusPath \<lparr>Vendor = 0x1050, Product = 0x0407, Bus = 3, BusDevice = 22\<rparr> = ''/dev/bus/usb/+003/+022''
   \<and> BusPath \<lparr>Vendor = 0x1050, Product = 0x0407, Bus = 3, BusDevice = 22\<rparr> \<noteq> ''/dev/bus/usb/003/022''"
proof -
  have bus: "fmtInteger True True 4 3 = ''+003''"
    by (simp add: fmtInteger_plus_sign FormatUint_small digit10_def replicate_two)
  have dev: "fmtInteger True True 4 22 = ''+022''"
    by (simp add: fmtInteger_plus_sign FormatUint_small FormatUint_large digit10_def)
  show ?thesis
    by (simp add: BusPath_def bus dev)
qed

section \<open>The loops of discovery\<close>

lemma forEach_invariant:
  assumes "forEach body xs s = Inr s'" and "P s"
    and "\<And>x t t'. x \<in> set xs \<Longrightarrow> P t \<Longrightarrow> body x t = Inr t' \<Longrightarrow> P t'"
  shows "P s'"
  using assms
proof (induction xs arbitrary: s)
  case Nil
  then show ?case by simp
next
  case (Cons x xs)
  from Cons.prems(1) obtain t where t: "body x s = Inr t" and rest: "forEach body xs t = Inr s'"
    by (auto split: sum.splits)
  have Pt: "P t" using Cons.prems(3) [of x s t] Cons.prems(2) t by simp
  show ?case
  proof (rule Cons.IH [OF rest Pt])
    fix y u u'
    assume "y \<in> set xs" "P u" "body y u = Inr u'"
    then show "P u'" using Cons.prems(3) [of y u u'] by simp
  qed
qed

lemma DevicePathType_neq_MountPathType: "DevicePathType \<noteq> MountPathType"
  by (simp add: DevicePathType_def MountPathType_def)

lemma shortest_Cons: "shortest len (n # ns) = shortest (if len = 0 \<or> n < len then n else len) ns"
  by (simp add: shortest_def)

lemma shortest_Nil: "shortest len [] = len"
  by (simp add: shortest_def)

subsection \<open>The glob loop\<close>

lemma globStep_loop_ok:
  assumes "\<forall>p\<in>set ps. \<exists>found. glob (Path p) = Inr found"
    and "length pre = k" and "length post = length ps"
  shows "forEach (globStep glob) (enumerate k ps) (pre @ post, len) =
           Inr (pre @ map (matchesOf glob) ps, shortest len (map (\<lambda>p. length (matchesOf glob p)) ps))"
  using assms
proof (induction ps arbitrary: pre post k len)
  case Nil
  then show ?case by (simp add: shortest_Nil)
next
  case (Cons p ps)
  from Cons.prems(1) obtain found where found: "glob (Path p) = Inr found" by auto
  from Cons.prems(3) obtain x post' where post: "post = x # post'" and len_post: "length post' = length ps"
    by (cases post) auto
  have m: "matchesOf glob p = sort found" by (simp add: matchesOf_def found)
  have upd: "(pre @ x # post')[k := sort found] = (pre @ [sort found]) @ post'"
    using Cons.prems(2) by (simp add: list_update_append)
  have step: "globStep glob (k, p) (pre @ post, len) =
      Inr ((pre @ [sort found]) @ post',
           if len = 0 \<or> length (sort found) < len then length (sort found) else len)"
    unfolding globStep_def post using upd by (simp add: found Let_def)
  have rest: "\<forall>p\<in>set ps. \<exists>found. glob (Path p) = Inr found" using Cons.prems(1) by simp
  have k': "length (pre @ [sort found]) = Suc k" using Cons.prems(2) by simp
  show ?case
    by (simp only: enumerate_simps forEach.simps step sum.case Cons.IH [OF rest k' len_post])
      (simp add: m shortest_Cons)
qed

lemma globStep_loop_Inr:
  "forEach (globStep glob) kps s = Inr r \<Longrightarrow> \<forall>kp\<in>set kps. \<exists>found. glob (Path (snd kp)) = Inr found"
proof (induction kps arbitrary: s)
  case Nil
  then show ?case by simp
next
  case (Cons kp kps)
  from Cons.prems obtain t where t: "globStep glob kp s = Inr t" and rest: "forEach (globStep glob) kps t = Inr r"
    by (auto split: sum.splits)
  from t have "\<exists>found. glob (Path (snd kp)) = Inr found"
    by (cases kp; cases s) (auto simp: globStep_def split: sum.splits)
  with Cons.IH [OF rest] show ?case by simp
qed

subsection \<open>The loop over the paths of a group\<close>

lemma unitDeviceSpecs_Cons:
  "unitDeviceSpecs glob (p # ps) i =
     (if Type p = DevicePathType
      then [\<lparr>ContainerPath = containerPath p (matchesOf glob p ! i), HostPath = matchesOf glob p ! i,
             ds_Permissions = Permissions p\<rparr>] else []) @ unitDeviceSpecs glob ps i"
  by (simp add: unitDeviceSpecs_def)

lemma unitMounts_Cons:
  "unitMounts glob (p # ps) i =
     (if Type p = MountPathType
      then [\<lparr>mnt_ContainerPath = containerPath p (matchesOf glob p ! i), mnt_HostPath = matchesOf glob p ! i,
             mnt_ReadOnly = ReadOnly p\<rparr>] else []) @ unitMounts glob ps i"
  by (simp add: unitMounts_def)

lemma addPath_loop:
  assumes "length pre = k"
  shows "forEach (addPath (pre @ map (matchesOf glob) ps) i) (enumerate k ps) (h, d) =
     (if \<forall>p\<in>set ps. i < length (matchesOf glob p)
      then Inr (h @ concat (map (\<lambda>p. matchesOf glob p ! i) ps),
                d\<lparr>deviceSpecs := deviceSpecs d @ unitDeviceSpecs glob ps i,
                  mounts := mounts d @ unitMounts glob ps i\<rparr>)
      else Inl IndexOutOfRange)"
  using assms
proof (induction ps arbitrary: pre k h d)
  case Nil
  then show ?case by (simp add: unitDeviceSpecs_def unitMounts_def)
next
  case (Cons p ps)
  let ?paths = "pre @ map (matchesOf glob) (p # ps)"
  have row: "index ?paths k = Inr (matchesOf glob p)"
    using Cons.prems by (simp add: index_def nth_append)
  have paths': "?paths = (pre @ [matchesOf glob p]) @ map (matchesOf glob) ps" by simp
  have k': "length (pre @ [matchesOf glob p]) = Suc k" using Cons.prems by simp
  show ?case
  proof (cases "i < length (matchesOf glob p)")
    case False
    then have "addPath ?paths i (k, p) (h, d) = Inl IndexOutOfRange"
      unfolding addPath_def by (simp only: prod.case row sum.case) (simp add: index_def)
    with False show ?thesis by (simp only: enumerate_simps forEach.simps) simp
  next
    case True
    let ?host = "matchesOf glob p ! i"
    define d1 where "d1 =
      (if Type p = DevicePathType
       then d\<lparr>deviceSpecs := deviceSpecs d @
              [\<lparr>ContainerPath = containerPath p ?host, HostPath = ?host, ds_Permissions = Permissions p\<rparr>]\<rparr>
       else if Type p = MountPathType
       then d\<lparr>mounts := mounts d @
              [\<lparr>mnt_ContainerPath = containerPath p ?host, mnt_HostPath = ?host, mnt_ReadOnly = ReadOnly p\<rparr>]\<rparr>
       else d)"
    have step: "addPath ?paths i (k, p) (h, d) = Inr (h @ ?host, d1)"
      unfolding addPath_def using True
      by (simp only: prod.case row sum.case) (simp add: index_def Let_def d1_def containerPath_def)
    have d1: "d1\<lparr>deviceSpecs := deviceSpecs d1 @ unitDeviceSpecs glob ps i,
                 mounts := mounts d1 @ unitMounts glob ps i\<rparr>
            = d\<lparr>deviceSpecs := deviceSpecs d @ unitDeviceSpecs glob (p # ps) i,
                 mounts := mounts d @ unitMounts glob (p # ps) i\<rparr>"
      using DevicePathType_neq_MountPathType
      by (auto simp: d1_def unitDeviceSpecs_Cons unitMounts_Cons)
    have "forEach (addPath ?paths i) (enumerate k (p # ps)) (h, d)
        = forEach (addPath ?paths i) (enumerate (Suc k) ps) (h @ ?host, d1)"
      by (simp only: enumerate_simps forEach.simps step sum.case)
    also have "\<dots> = (if \<forall>q\<in>set ps. i < length (matchesOf glob q)
        then Inr ((h @ ?host) @ concat (map (\<lambda>p. matchesOf glob p ! i) ps),
                  d1\<lparr>deviceSpecs := deviceSpecs d1 @ unitDeviceSpecs glob ps i,
                     mounts := mounts d1 @ unitMounts glob ps i\<rparr>)
        else Inl IndexOutOfRange)"
      unfolding paths' by (rule Cons.IH [OF k'])
    finally show ?thesis using True by (simp add: d1)
  qed
qed

lemma buildDevice_eq:
  "buildDevice sha1 grp (map (matchesOf glob) (Paths grp)) i j =
     (if \<forall>p\<in>set (Paths grp). i < length (matchesOf glob p)
      then Inr (zipUnit sha1 glob (Paths grp) i j) else Inl IndexOutOfRange)"
  using addPath_loop [of "[]" 0 glob "Paths grp" i]
  by (simp add: buildDevice_def zipUnit_def digestInput_def)

subsection \<open>The loops over repetitions and match indices\<close>

lemma appendDevice_loop:
  "forEach (appendDevice sha1 grp (map (matchesOf glob) (Paths grp)) i) js devs =
     (if js = [] \<or> (\<forall>p\<in>set (Paths grp). i < length (matchesOf glob p))
      then Inr (devs @ map (zipUnit sha1 glob (Paths grp) i) js) else Inl IndexOutOfRange)"
  by (induction js arbitrary: devs) (simp_all add: appendDevice_def buildDevice_eq)

lemma matchIndex_loop:
  "forEach (\<lambda>i. forEach (appendDevice sha1 grp (map (matchesOf glob) (Paths grp)) i) [0..<c]) is devs =
     (if c = 0 \<or> (\<forall>i\<in>set is. \<forall>p\<in>set (Paths grp). i < length (matchesOf glob p))
      then Inr (devs @ concat (map (\<lambda>i. map (zipUnit sha1 glob (Paths grp) i) [0..<c]) is))
      else Inl IndexOutOfRange)"
  by (induction "is" arbitrary: devs) (auto simp: appendDevice_loop)

lemma discoverGroup_eq:
  assumes "\<forall>p\<in>set (Paths grp). \<exists>found. glob (Path p) = Inr found"
  shows "discoverGroup sha1 glob grp devs =
     (if Count grp = 0 \<or>
         (\<forall>i < shortest 0 (map (\<lambda>p. length (matchesOf glob p)) (Paths grp)).
            \<forall>p\<in>set (Paths grp). i < length (matchesOf glob p))
      then Inr (devs @ concat (map (\<lambda>i. map (zipUnit sha1 glob (Paths grp) i) [0..<Count grp])
                  [0..<shortest 0 (map (\<lambda>p. length (matchesOf glob p)) (Paths grp))]))
      else Inl IndexOutOfRange)"
proof -
  have "forEach (globStep glob) (enumerate 0 (Paths grp)) (replicate (length (Paths grp)) [], 0) =
      Inr (map (matchesOf glob) (Paths grp), shortest 0 (map (\<lambda>p. length (matchesOf glob p)) (Paths grp)))"
    using globStep_loop_ok [OF assms, of "[]" 0 "replicate (length (Paths grp)) []" 0] by simp
  then show ?thesis
    by (simp add: discoverGroup_def matchIndex_loop)
qed

lemma discoverGroup_Inr_globs:
  assumes "discoverGroup sha1 glob grp devs = Inr devs'"
  shows "\<forall>p\<in>set (Paths grp). \<exists>found. glob (Path p) = Inr found"
proof
  fix p assume "p \<in> set (Paths grp)"
  then obtain k where k: "k < length (Paths grp)" "Paths grp ! k = p" by (auto simp: in_set_conv_nth)
  then have mem: "(k, p) \<in> set (enumerate 0 (Paths grp))" by (simp add: in_set_enumerate_eq)
  from assms obtain r where
    "forEach (globStep glob) (enumerate 0 (Paths grp)) (replicate (length (Paths grp)) [], 0) = Inr r"
    by (auto simp: discoverGroup_def split: sum.splits)
  from globStep_loop_Inr [OF this] mem show "\<exists>found. glob (Path p) = Inr found" by fastforce
qed

subsection \<open>The length of the shortest match list\<close>

lemma shortest_fold_min:
  "\<forall>n\<in>set ns. 0 < n \<Longrightarrow> 0 < len \<Longrightarrow> shortest len ns = fold min ns len"
proof (induction ns arbitrary: len)
  case Nil
  then show ?case by (simp add: shortest_Nil)
next
  case (Cons n ns)
  from Cons.prems have n: "0 < n" and rest: "\<forall>n\<in>set ns. 0 < n" by simp_all
  have "shortest len (n # ns) = shortest (min n len) ns"
    using Cons.prems(2) by (simp add: shortest_Cons min_def)
  also have "\<dots> = fold min ns (min n len)"
    using n Cons.prems(2) by (intro Cons.IH [OF rest]) simp
  finally show ?case by simp
qed

lemma shortest_Min:
  assumes "\<forall>n\<in>set ns. 0 < n" and "ns \<noteq> []"
  shows "shortest 0 ns = Min (set ns)"
proof -
  from assms(2) obtain n ns' where ns: "ns = n # ns'" by (cases ns) auto
  with assms(1) have n: "0 < n" and rest: "\<forall>n\<in>set ns'. 0 < n" by simp_all
  have "shortest 0 ns = shortest n ns'" by (simp add: ns shortest_Cons)
  also have "\<dots> = fold min ns' n" by (rule shortest_fold_min [OF rest n])
  also have "\<dots> = Min (set ns)" by (simp only: ns Min.set_eq_fold)
  finally show ?thesis .
qed

lemma minMatchCount_shortest:
  assumes "\<forall>p\<in>set ps. \<exists>found. glob (Path p) = Inr found \<and> found \<noteq> []"
  shows "shortest 0 (map (\<lambda>p. length (matchesOf glob p)) ps) = minMatchCount glob ps"
proof (cases "ps = []")
  case True
  then show ?thesis by (simp add: minMatchCount_def shortest_Nil)
next
  case False
  have "0 < length (matchesOf glob p)" if "p \<in> set ps" for p
  proof -
    from assms that obtain found where "glob (Path p) = Inr found" "found \<noteq> []" by blast
    then show ?thesis by (simp add: matchesOf_def)
  qed
  then have "\<forall>n\<in>set (map (\<lambda>p. length (matchesOf glob p)) ps). 0 < n" by auto
  from shortest_Min [OF this] False show ?thesis by (simp add: minMatchCount_def)
qed

lemma minMatchCount_le: "p \<in> set ps \<Longrightarrow> minMatchCount glob ps \<le> length (matchesOf glob p)"
  by (auto simp: minMatchCount_def intro: Min_le)

lemma block_index: "i < n \<Longrightarrow> j < c \<Longrightarrow> i * c + j < n * (c::nat)"
proof -
  assume i: "i < n" and j: "j < c"
  have "i * c + j < Suc i * c" using j by simp
  also have "\<dots> \<le> n * c" using i by (intro mult_le_mono1) simp
  finally show ?thesis .
qed

lemma concat_blocks_length:
  "length (concat (map (\<lambda>i. map (f i) [0..<c]) [0..<n])) = n * c"
  by (induction n) simp_all

lemma concat_blocks_nth:
  "i < n \<Longrightarrow> j < c \<Longrightarrow> concat (map (\<lambda>i. map (f i) [0..<c]) [0..<n]) ! (i * c + j) = f i j"
proof (induction n)
  case 0
  then show ?case by simp
next
  case (Suc n)
  show ?case
  proof (cases "i < n")
    case True
    from True Suc.prems(2) have "i * c + j < n * c" by (rule block_index)
    with Suc.IH [OF True Suc.prems(2)] show ?thesis
      by (simp add: nth_append concat_blocks_length)
  next
    case False
    with Suc.prems(1) have "i = n" by simp
    with Suc.prems(2) show ?thesis
      by (simp add: nth_append concat_blocks_length)
  qed
qed

subsection \<open>Evaluating the test cases\<close>

lemmas discover_unfold =
  discoverPath_def discover_def Default_def Default_Group_def Default_Path_def pathSpec_def
  discoverGroup_def globStep_def appendDevice_def buildDevice_def addPath_def index_def
  DevicePathType_def MountPathType_def enumerate_eq_zip upt_rec exampleGlob_def
  less_char_def less_eq_char_def FormatUint_small digit10_def

lemma matchesOf_ttyUSB:
  "matchesOf exampleGlob (Default_Path (pathSpec ''/dev/ttyUSB*'')) =
     [''/dev/ttyUSB0'', ''/dev/ttyUSB1'', ''/dev/ttyUSB2'', ''/dev/ttyUSB3'']"
  by (simp add: matchesOf_def exampleGlob_def Default_Path_def pathSpec_def less_char_def less_eq_char_def)

lemma matchesOf_video:
  "matchesOf exampleGlob (Default_Path (pathSpec ''/dev/video*'')) = [''/dev/video0'', ''/dev/video1'']"
  by (simp add: matchesOf_def exampleGlob_def Default_Path_def pathSpec_def less_char_def less_eq_char_def)

lemma Paths_cappedGroup:
  "Paths cappedGroup = [Default_Path (pathSpec ''/dev/ttyUSB*''), Default_Path (pathSpec ''/dev/video*'')]"
  "Count cappedGroup = 2"
  by (simp_all add: cappedGroup_def Default_Group_def)

lemma discover_simple:
  "discover sha1 exampleGlob (Default simpleSpec) =
     Inr [\<lparr>ID = Sprintf_x (sha1 ''0/dev/simple''), Health = Healthy,
           deviceSpecs = [\<lparr>ContainerPath = ''/dev/simple'', HostPath = ''/dev/simple'',
                           ds_Permissions = ''mrw''\<rparr>],
           mounts = []\<rparr>]"
  by (simp add: simpleSpec_def discover_unfold)

lemma refreshedOnce_eq:
  "refreshedOnce sha1 = \<lparr>ds = Default simpleSpec,
      devices = [Sprintf_x (sha1 ''0/dev/simple'') \<mapsto>
         \<lparr>ID = Sprintf_x (sha1 ''0/dev/simple''), Health = Healthy,
           deviceSpecs = [\<lparr>ContainerPath = ''/dev/simple'', HostPath = ''/dev/simple'',
                           ds_Permissions = ''mrw''\<rparr>],
           mounts = []\<rparr>],
      deviceGauge = 1, allocationsCounter = 0\<rparr>"
  by (simp add: refreshedOnce_def refreshDevices_def NewGenericPlugin_def discover_simple refreshStep_def)

section \<open>Cardinality capping\<close>

text \<open>
  C5. In a group where every pattern matches at least one path, discovery appends exactly
  (minimal number of matches over the paths of the group) times \<^verbatim>\<open>Count\<close> devices, and the
  device at position \<open>i * Count + j\<close> is made of the \<open>i\<close>-th entry of every path's sorted list
  of matches, for \<open>i\<close> below that minimum and \<open>j\<close> below \<^verbatim>\<open>Count\<close>: device specs for the paths
  of type \<^verbatim>\<open>Device\<close>, mounts for those of type \<^verbatim>\<open>Mount\<close>, in the order of the group. Matches
  from the minimum on are in no device. (For a group without paths the minimum is taken
  as 0: it yields no device.)
\<close>

theorem discoverGroup_cardinality_capping:
  assumes "\<forall>p\<in>set (Paths grp). \<exists>found. glob (Path p) = Inr found \<and> found \<noteq> []"
  shows "\<exists>units. discoverGroup sha1 glob grp devs = Inr (devs @ units)
     \<and> length units = minMatchCount glob (Paths grp) * Count grp
     \<and> (\<forall>i < minMatchCount glob (Paths grp). \<forall>j < Count grp.
          units ! (i * Count grp + j) = zipUnit sha1 glob (Paths grp) i j)"
proof -
  let ?n = "minMatchCount glob (Paths grp)"
  let ?units = "concat (map (\<lambda>i. map (zipUnit sha1 glob (Paths grp) i) [0..<Count grp]) [0..<?n])"
  from assms have globs: "\<forall>p\<in>set (Paths grp). \<exists>found. glob (Path p) = Inr found" by blast
  have len: "shortest 0 (map (\<lambda>p. length (matchesOf glob p)) (Paths grp)) = ?n"
    by (rule minMatchCount_shortest [OF assms])
  have ok: "\<forall>i < ?n. \<forall>p\<in>set (Paths grp). i < length (matchesOf glob p)"
    using minMatchCount_le [of _ "Paths grp" glob] by (meson less_le_trans)
  have "discoverGroup sha1 glob grp devs = Inr (devs @ ?units)"
    using ok by (simp add: discoverGroup_eq [OF globs] len)
  moreover have "length ?units = ?n * Count grp" by (rule concat_blocks_length)
  moreover have "\<forall>i < ?n. \<forall>j < Count grp. ?units ! (i * Count grp + j) = zipUnit sha1 glob (Paths grp) i j"
    by (simp add: concat_blocks_nth)
  ultimately show ?thesis by blast
qed

text \<open>
  On the test file system, the group of \<^verbatim>\<open>/dev/ttyUSB*\<close> (four matches) and \<^verbatim>\<open>/dev/video*\<close>
  (two matches) with \<^verbatim>\<open>Count = 2\<close> yields four devices, the last one for the second match
  of each pattern.
\<close>

theorem discoverGroup_cardinality_capping_witness:
  "\<forall>sha1. \<exists>units. discoverGroup sha1 exampleGlob cappedGroup [] = Inr units
     \<and> length units = 4
     \<and> map HostPath (deviceSpecs (units ! 3)) = [''/dev/ttyUSB1'', ''/dev/video1'']
     \<and> map ContainerPath (deviceSpecs (units ! 3)) = [''/dev/ttyUSB1'', ''/dev/video1'']"
proof
  fix sha1
  have matched: "\<forall>p\<in>set (Paths cappedGroup). \<exists>found. exampleGlob (Path p) = Inr found \<and> found \<noteq> []"
    by (simp add: Paths_cappedGroup exampleGlob_def Default_Path_def pathSpec_def)
  have n: "minMatchCount exampleGlob (Paths cappedGroup) = 2"
    by (simp add: minMatchCount_def Paths_cappedGroup matchesOf_ttyUSB matchesOf_video)
  from discoverGroup_cardinality_capping [OF matched, of sha1 "[]"] obtain units where
    units: "discoverGroup sha1 exampleGlob cappedGroup [] = Inr units"
    and len: "length units = minMatchCount exampleGlob (Paths cappedGroup) * Count cappedGroup"
    and nth: "\<forall>i < minMatchCount exampleGlob (Paths cappedGroup). \<forall>j < Count cappedGroup.
        units ! (i * Count cappedGroup + j) = zipUnit sha1 exampleGlob (Paths cappedGroup) i j"
    by auto
  have "(1::nat) < 2" by simp
  with nth have "units ! (1 * 2 + 1) = zipUnit sha1 exampleGlob (Paths cappedGroup) 1 1"
    unfolding n Paths_cappedGroup(2) by blast
  then have last: "units ! 3 = zipUnit sha1 exampleGlob (Paths cappedGroup) 1 1" by simp
  have "deviceSpecs (zipUnit sha1 exampleGlob (Paths cappedGroup) 1 1) =
      [\<lparr>ContainerPath = ''/dev/ttyUSB1'', HostPath = ''/dev/ttyUSB1'', ds_Permissions = ''mrw''\<rparr>,
       \<lparr>ContainerPath = ''/dev/video1'', HostPath = ''/dev/video1'', ds_Permissions = ''mrw''\<rparr>]"
    by (simp add: zipUnit_def unitDeviceSpecs_def Paths_cappedGroup matchesOf_ttyUSB matchesOf_video
        containerPath_def)
      (simp add: Default_Path_def pathSpec_def DevicePathType_def)
  with last have specs: "deviceSpecs (units ! 3) =
      [\<lparr>ContainerPath = ''/dev/ttyUSB1'', HostPath = ''/dev/ttyUSB1'', ds_Permissions = ''mrw''\<rparr>,
       \<lparr>ContainerPath = ''/dev/video1'', HostPath = ''/dev/video1'', ds_Permissions = ''mrw''\<rparr>]"
    by (simp only:)
  from units len show "\<exists>units. discoverGroup sha1 exampleGlob cappedGroup [] = Inr units
     \<and> length units = 4
     \<and> map HostPath (deviceSpecs (units ! 3)) = [''/dev/ttyUSB1'', ''/dev/video1'']
     \<and> map ContainerPath (deviceSpecs (units ! 3)) = [''/dev/ttyUSB1'', ''/dev/video1'']"
    by (simp add: n Paths_cappedGroup(2) specs)
qed

section \<open>The identity of a device\<close>

subsection \<open>Decimal digits and hexadecimal encoding\<close>

lemma digit10_value: "d < 10 \<Longrightarrow> of_char (digit10 d) = 48 + d"
proof -
  assume "d < 10"
  then have "d = 0 \<or> d = 1 \<or> d = 2 \<or> d = 3 \<or> d = 4 \<or> d = 5 \<or> d = 6 \<or> d = 7 \<or> d = 8 \<or> d = 9"
    by arith
  then show ?thesis by (auto simp: digit10_def)
qed

lemma digit10_digit: "digit10 d \<in> set ''0123456789''"
proof -
  have "d mod 10 < length ''0123456789''" by simp
  then show ?thesis unfolding digit10_def by (rule nth_mem)
qed

lemma FormatUint_length: "0 < length (FormatUint u)"
  by (subst FormatUint.simps) simp

lemma FormatUint_digits: "set (FormatUint u) \<subseteq> set ''0123456789''"
proof (induction u rule: FormatUint.induct)
  case (1 u)
  show ?case
  proof (cases "u < 10")
    case True
    then show ?thesis using digit10_digit [of u] by (simp add: FormatUint_small)
  next
    case False
    with "1.IH" digit10_digit [of "u mod 10"] show ?thesis by (simp add: FormatUint_large)
  qed
qed

lemma FormatUint_value: "foldl (\<lambda>n c. 10 * n + (of_char c - 48)) 0 (FormatUint u) = u"
proof (induction u rule: FormatUint.induct)
  case (1 u)
  show ?case
  proof (cases "u < 10")
    case True
    then show ?thesis by (simp add: FormatUint_small digit10_value)
  next
    case False
    with "1.IH" show ?thesis by (simp add: FormatUint_large digit10_value)
  qed
qed

lemma FormatUint_no_leading_zero: "0 < u \<Longrightarrow> hd (FormatUint u) \<noteq> CHR ''0''"
proof (induction u rule: FormatUint.induct)
  case (1 u)
  show ?case
  proof (cases "u < 10")
    case True
    with "1.prems" have "u = 1 \<or> u = 2 \<or> u = 3 \<or> u = 4 \<or> u = 5 \<or> u = 6 \<or> u = 7 \<or> u = 8 \<or> u = 9"
      by arith
    then show ?thesis by (auto simp: FormatUint_small digit10_def)
  next
    case False
    then have "0 < u div 10" by simp
    from "1.IH" [OF False this] False FormatUint_length [of "u div 10"]
    show ?thesis by (simp add: FormatUint_large hd_append)
  qed
qed

lemma hexdigit_high: "hexdigit (unat (b :: byte) div 16) = ''0123456789abcdef'' ! (unat b div 16)"
proof -
  have "unat b < 256" using unsigned_less [of b] by simp
  then have "unat b div 16 < 16" by simp
  then show ?thesis by (simp add: hexdigit_def)
qed

lemma hexdigit_low: "hexdigit (unat (b :: byte) mod 16) = ''0123456789abcdef'' ! (unat b mod 16)"
  by (simp add: hexdigit_def)

lemma Sprintf_x_Cons:
  "Sprintf_x (b # bs) = hexdigit (unat b div 16) # hexdigit (unat b mod 16) # Sprintf_x bs"
  by (simp add: Sprintf_x_def)

lemma Sprintf_x_length: "length (Sprintf_x bs) = 2 * length bs"
  by (induction bs) (simp_all add: Sprintf_x_Cons, simp add: Sprintf_x_def)

lemma Sprintf_x_nth:
  "k < length bs \<Longrightarrow>
     Sprintf_x bs ! (2 * k) = ''0123456789abcdef'' ! (unat (bs ! k) div 16)
   \<and> Sprintf_x bs ! (2 * k + 1) = ''0123456789abcdef'' ! (unat (bs ! k) mod 16)"
proof (induction bs arbitrary: k)
  case Nil
  then show ?case by simp
next
  case (Cons b bs)
  show ?case
  proof (cases k)
    case 0
    then show ?thesis by (simp add: Sprintf_x_Cons hexdigit_high hexdigit_low)
  next
    case (Suc n)
    with Cons.prems have "n < length bs" by simp
    from Cons.IH [OF this] Suc show ?thesis by (simp add: Sprintf_x_Cons)
  qed
qed

subsection \<open>The devices of a successful discovery\<close>

lemma zipUnit_fn:
  "zipUnit sha1 glob ps i =
     (\<lambda>j. \<lparr>ID = Sprintf_x (sha1 (FormatUint j @ concat (map (\<lambda>p. matchesOf glob p ! i) ps))),
            Health = Healthy, deviceSpecs = unitDeviceSpecs glob ps i, mounts = unitMounts glob ps i\<rparr>)"
  by (rule ext) (simp add: zipUnit_def digestInput_def)

lemma discoverGroups_loop:
  assumes "forEach (discoverGroup sha1 glob) grps devs0 = Inr devs"
  shows "devs = devs0 @ concat (map (\<lambda>grp. concat (map (\<lambda>i. map (zipUnit sha1 glob (Paths grp) i)
                    [0..<Count grp]) [0..<shortestLength glob (Paths grp)])) grps)
    \<and> (\<forall>grp\<in>set grps.
          (\<forall>p\<in>set (Paths grp). \<exists>found. glob (Path p) = Inr found)
          \<and> (Count grp = 0 \<or> (\<forall>i < shortestLength glob (Paths grp).
                 \<forall>p\<in>set (Paths grp). i < length (matchesOf glob p))))"
  using assms
proof (induction grps arbitrary: devs0)
  case Nil
  then show ?case by simp
next
  case (Cons grp grps)
  from Cons.prems obtain t where step: "discoverGroup sha1 glob grp devs0 = Inr t"
    and rest: "forEach (discoverGroup sha1 glob) grps t = Inr devs"
    by (auto split: sum.splits)
  have globs: "\<forall>p\<in>set (Paths grp). \<exists>found. glob (Path p) = Inr found"
    by (rule discoverGroup_Inr_globs [OF step])
  from step have ok: "Count grp = 0 \<or> (\<forall>i < shortestLength glob (Paths grp).
        \<forall>p\<in>set (Paths grp). i < length (matchesOf glob p))"
    and t: "t = devs0 @ concat (map (\<lambda>i. map (zipUnit sha1 glob (Paths grp) i) [0..<Count grp])
              [0..<shortestLength glob (Paths grp)])"
    by (auto simp: discoverGroup_eq [OF globs] shortestLength_def split: if_splits)
  from Cons.IH [OF rest] globs ok t show ?case by simp
qed

text \<open>
  C6. When path discovery succeeds, its result is exactly this list: for every group in
  the order of the specification, for every match index \<open>i\<close> below the length kept by the
  first loop, for every repetition \<open>j\<close> below \<^verbatim>\<open>Count\<close>, the device with the device specs and
  mounts of the \<open>i\<close>-th sorted match of every path, whose id is \<^verbatim>\<open>Sprintf("%x")\<close> of the SHA-1
  digest of exactly these bytes: \<^verbatim>\<open>FormatUint\<close> of that \<open>j\<close>, then the \<open>i\<close>-th sorted match of
  each path of the group, in the order of the group. Every pattern of a group has matches
  (sorted by \<^verbatim>\<open>sort.Strings\<close>), and every match index used is within the matches of every
  path. \<^verbatim>\<open>Sprintf("%x")\<close> is the lower-case hexadecimal encoding: two characters per byte,
  the digit of the high half first. \<^verbatim>\<open>FormatUint\<close> is the decimal representation: digits
  only, of value \<open>j\<close>, without a leading zero for a positive \<open>j\<close>.
\<close>

theorem discoverPath_unit_ID:
  assumes "discoverPath sha1 glob spec = Inr devs"
  shows "devs = concat (map (\<lambda>grp. concat (map (\<lambda>i. map (\<lambda>j.
              \<lparr>ID = Sprintf_x (sha1 (FormatUint j @ concat (map (\<lambda>p. matchesOf glob p ! i) (Paths grp)))),
               Health = Healthy,
               deviceSpecs = unitDeviceSpecs glob (Paths grp) i,
               mounts = unitMounts glob (Paths grp) i\<rparr>)
            [0..<Count grp]) [0..<shortestLength glob (Paths grp)])) (Groups spec))
    \<and> (\<forall>grp\<in>set (Groups spec).
          (\<forall>p\<in>set (Paths grp). \<exists>found. glob (Path p) = Inr found \<and> matchesOf glob p = sort found)
          \<and> (Count grp = 0 \<or> (\<forall>i < shortestLength glob (Paths grp).
                 \<forall>p\<in>set (Paths grp). i < length (matchesOf glob p))))
    \<and> (\<forall>bs. length (Sprintf_x bs) = 2 * length bs
          \<and> (\<forall>k < length bs.
                Sprintf_x bs ! (2 * k) = ''0123456789abcdef'' ! (unat (bs ! k) div 16)
              \<and> Sprintf_x bs ! (2 * k + 1) = ''0123456789abcdef'' ! (unat (bs ! k) mod 16)))
    \<and> (\<forall>j. set (FormatUint j) \<subseteq> set ''0123456789''
          \<and> foldl (\<lambda>n c. 10 * n + (of_char c - 48)) 0 (FormatUint j) = j
          \<and> (0 < j \<longrightarrow> hd (FormatUint j) \<noteq> CHR ''0''))"
proof -
  from assms have loop: "forEach (discoverGroup sha1 glob) (Groups spec) [] = Inr devs"
    by (simp add: discoverPath_def)
  note groups = discoverGroups_loop [OF loop]
  have sorted: "\<exists>found. glob (Path p) = Inr found \<and> matchesOf glob p = sort found"
    if "\<exists>found. glob (Path p) = Inr found" for p
    using that by (auto simp: matchesOf_def)
  from groups have units: "devs = concat (map (\<lambda>grp. concat (map (\<lambda>i. map (\<lambda>j.
              \<lparr>ID = Sprintf_x (sha1 (FormatUint j @ concat (map (\<lambda>p. matchesOf glob p ! i) (Paths grp)))),
               Health = Healthy,
               deviceSpecs = unitDeviceSpecs glob (Paths grp) i,
               mounts = unitMounts glob (Paths grp) i\<rparr>)
            [0..<Count grp]) [0..<shortestLength glob (Paths grp)])) (Groups spec))"
    by (simp add: zipUnit_fn)
  from groups sorted have range: "\<forall>grp\<in>set (Groups spec).
          (\<forall>p\<in>set (Paths grp). \<exists>found. glob (Path p) = Inr found \<and> matchesOf glob p = sort found)
          \<and> (Count grp = 0 \<or> (\<forall>i < shortestLength glob (Paths grp).
                 \<forall>p\<in>set (Paths grp). i < length (matchesOf glob p)))"
    by blast
  have hex: "\<forall>bs. length (Sprintf_x bs) = 2 * length bs
          \<and> (\<forall>k < length bs.
                Sprintf_x bs ! (2 * k) = ''0123456789abcdef'' ! (unat (bs ! k) div 16)
              \<and> Sprintf_x bs ! (2 * k + 1) = ''0123456789abcdef'' ! (unat (bs ! k) mod 16))"
    using Sprintf_x_length Sprintf_x_nth by blast
  have dec: "\<forall>j. set (FormatUint j) \<subseteq> set ''0123456789''
          \<and> foldl (\<lambda>n c. 10 * n + (of_char c - 48)) 0 (FormatUint j) = j
          \<and> (0 < j \<longrightarrow> hd (FormatUint j) \<noteq> CHR ''0'')"
    using FormatUint_digits FormatUint_value FormatUint_no_leading_zero by blast
  from units range hex dec show ?thesis by (intro conjI)
qed

text \<open>
  The test case \<^verbatim>\<open>simple\<close> with \<^verbatim>\<open>Count = 2\<close>: two devices for \<^verbatim>\<open>/dev/simple\<close>, with the ids
  of the digests of \<^verbatim>\<open>0/dev/simple\<close> and \<^verbatim>\<open>1/dev/simple\<close>, and the encoding of four bytes.
\<close>

lemma shortestLength_simple:
  "shortestLength exampleGlob [Default_Path (pathSpec ''/dev/simple'')] = 1"
  by (simp add: shortestLength_def shortest_def matchesOf_def exampleGlob_def Default_Path_def pathSpec_def)

lemma discoverPath_simpleTwice:
  "discoverPath sha1 exampleGlob (Default simpleTwice) =
     Inr [\<lparr>ID = Sprintf_x (sha1 ''0/dev/simple''), Health = Healthy,
           deviceSpecs = [\<lparr>ContainerPath = ''/dev/simple'', HostPath = ''/dev/simple'',
                           ds_Permissions = ''mrw''\<rparr>],
           mounts = []\<rparr>,
          \<lparr>ID = Sprintf_x (sha1 ''1/dev/simple''), Health = Healthy,
           deviceSpecs = [\<lparr>ContainerPath = ''/dev/simple'', HostPath = ''/dev/simple'',
                           ds_Permissions = ''mrw''\<rparr>],
           mounts = []\<rparr>]"
  by (simp add: simpleTwice_def discover_unfold)

theorem discoverPath_unit_ID_witness:
  "\<forall>sha1. \<exists>d0 d1. discoverPath sha1 exampleGlob (Default simpleTwice) = Inr [d0, d1]
     \<and> ID d0 = Sprintf_x (sha1 ''0/dev/simple'') \<and> ID d1 = Sprintf_x (sha1 ''1/dev/simple'')
     \<and> map HostPath (deviceSpecs d0) = [''/dev/simple''] \<and> map HostPath (deviceSpecs d1) = [''/dev/simple'']
     \<and> length (ID d0) = 2 * length (sha1 ''0/dev/simple'')
     \<and> Sprintf_x [0xa9, 0x99, 0x3e, 0x0f] = ''a9993e0f''"
proof
  fix sha1
  obtain devs where run: "discoverPath sha1 exampleGlob (Default simpleTwice) = Inr devs"
    by (simp add: discoverPath_simpleTwice)
  have groups: "Groups (Default simpleTwice) =
      [\<lparr>Paths = [Default_Path (pathSpec ''/dev/simple'')], Count = 2\<rparr>]"
    by (simp add: simpleTwice_def Default_def Default_Group_def)
  have m: "matchesOf exampleGlob (Default_Path (pathSpec ''/dev/simple'')) = [''/dev/simple'']"
    by (simp add: matchesOf_def exampleGlob_def Default_Path_def pathSpec_def)
  have specs: "unitDeviceSpecs exampleGlob [Default_Path (pathSpec ''/dev/simple'')] 0 =
      [\<lparr>ContainerPath = ''/dev/simple'', HostPath = ''/dev/simple'', ds_Permissions = ''mrw''\<rparr>]"
    by (simp add: unitDeviceSpecs_def m containerPath_def)
      (simp add: Default_Path_def pathSpec_def DevicePathType_def)
  have mnts: "unitMounts exampleGlob [Default_Path (pathSpec ''/dev/simple'')] 0 = []"
    by (simp add: unitMounts_def Default_Path_def pathSpec_def DevicePathType_def MountPathType_def)
  have upt2: "[0..<2] = [0, Suc 0]" by (simp add: upt_rec)
  from discoverPath_unit_ID [OF run]
  have devs: "devs = map (\<lambda>j. \<lparr>ID = Sprintf_x (sha1 (FormatUint j @ ''/dev/simple'')), Health = Healthy,
           deviceSpecs = [\<lparr>ContainerPath = ''/dev/simple'', HostPath = ''/dev/simple'',
                           ds_Permissions = ''mrw''\<rparr>],
           mounts = []\<rparr>) [0, 1]"
    and len: "\<forall>bs. length (Sprintf_x bs) = 2 * length bs"
    by (simp_all add: groups shortestLength_simple m specs mnts upt2)
  have hex: "Sprintf_x [0xa9, 0x99, 0x3e, 0x0f] = ''a9993e0f''"
    by (simp add: Sprintf_x_def hexdigit_def)
  from run devs len hex
  show "\<exists>d0 d1. discoverPath sha1 exampleGlob (Default simpleTwice) = Inr [d0, d1]
     \<and> ID d0 = Sprintf_x (sha1 ''0/dev/simple'') \<and> ID d1 = Sprintf_x (sha1 ''1/dev/simple'')
     \<and> map HostPath (deviceSpecs d0) = [''/dev/simple''] \<and> map HostPath (deviceSpecs d1) = [''/dev/simple'']
     \<and> length (ID d0) = 2 * length (sha1 ''0/dev/simple'')
     \<and> Sprintf_x [0xa9, 0x99, 0x3e, 0x0f] = ''a9993e0f''"
    by (simp add: FormatUint_small digit10_def)
qed

text \<open>
  Two repetitions of the same matches feed different bytes to the digest: the decimal
  forms of different numbers differ, and the bytes that follow are the same. Whether
  SHA-1 maps the two inputs to different digests (C9) is not decided by that.
\<close>

lemma digit10_inj: "a < 10 \<Longrightarrow> b < 10 \<Longrightarrow> digit10 a = digit10 b \<Longrightarrow> a = b"
proof -
  assume a: "a < 10" and b: "b < 10" and eq: "digit10 a = digit10 b"
  have d: "distinct ''0123456789''" by simp
  from a b eq have "''0123456789'' ! a = ''0123456789'' ! b" by (simp add: digit10_def)
  with d a b show "a = b" by (simp add: nth_eq_iff_index_eq)
qed

lemma FormatUint_inj: "FormatUint u = FormatUint v \<Longrightarrow> u = v"
proof (induction u arbitrary: v rule: FormatUint.induct)
  case (1 u)
  show ?case
  proof (cases "u < 10")
    case True
    show ?thesis
    proof (cases "v < 10")
      case True
      with \<open>u < 10\<close> "1.prems" show ?thesis
        by (simp add: FormatUint_small digit10_inj)
    next
      case False
      with True "1.prems" FormatUint_length [of "v div 10"] show ?thesis
        by (simp add: FormatUint_small FormatUint_large)
    qed
  next
    case False
    show ?thesis
    proof (cases "v < 10")
      case True
      with False "1.prems" FormatUint_length [of "u div 10"] show ?thesis
        by (simp add: FormatUint_small FormatUint_large)
    next
      case v: False
      with False "1.prems" have eq: "FormatUint (u div 10) = FormatUint (v div 10)"
        and last: "digit10 (u mod 10) = digit10 (v mod 10)"
        by (simp_all add: FormatUint_large)
      from "1.IH" [OF False eq] have "u div 10 = v div 10" .
      moreover from last have "u mod 10 = v mod 10" by (intro digit10_inj) simp_all
      ultimately show ?thesis by (metis div_mult_mod_eq)
    qed
  qed
qed

lemma digestInput_inj: "digestInput glob ps i j = digestInput glob ps i j' \<Longrightarrow> j = j'"
  by (simp add: digestInput_def FormatUint_inj)

section \<open>A pattern without matches\<close>

text \<open>
  C2. The spec says that a group with a pattern that matches nothing yields no device and
  no failure, in whatever order its paths are listed. The code keeps the shortest length
  with \<^verbatim>\<open>if length == 0 || len(matches) < length\<close>, where 0 also stands for "no length
  yet": after a pattern without matches, the next pattern's number of matches replaces
  the 0. For the test case \<^verbatim>\<open>only one exists\<close> (\<^verbatim>\<open>/dev/does/not/exist\<close> listed before
  \<^verbatim>\<open>/dev/does/exist\<close>) the length ends as 1 and \<^verbatim>\<open>paths[0][0]\<close> is read from an empty
  slice: discovery panics. With the two paths swapped it returns no device, as the
  test expects of both.
\<close>

theorem discoverPath_only_one_exists:
  "discoverPath sha1 exampleGlob (Default onlyOneExists) = Inl IndexOutOfRange
   \<and> discoverPath sha1 exampleGlob (Default existsFirst) = Inr []"
  by (simp add: onlyOneExists_def existsFirst_def discover_unfold)

section \<open>The mount path of a directory\<close>


section \<open>Change detection\<close>

lemma refreshStep_equal: "snd (fold (refreshStep old) found (m, False)) = False"
  by (induction found arbitrary: m) (simp_all add: refreshStep_def)

lemma refreshStep_new:
  "fst (fold (refreshStep old) found (m, b)) k = Some d \<Longrightarrow> d \<in> set found \<or> m k = Some d"
proof (induction found arbitrary: m b)
  case Nil
  then show ?case by simp
next
  case (Cons a found)
  obtain m' b' where step: "refreshStep old a (m, b) = (m', b')" and m': "m' = m(ID a \<mapsto> a)"
    by (simp add: refreshStep_def)
  from Cons.prems step have "fst (fold (refreshStep old) found (m', b')) k = Some d" by simp
  from Cons.IH [OF this] have "d \<in> set found \<or> m' k = Some d" .
  with m' show ?case by (auto split: if_splits)
qed

lemma refreshDevices_never_unchanged: "fst (refreshDevices sha1 glob gp) \<noteq> Inr True"
proof (cases "discover sha1 glob (ds gp)")
  case (Inl e)
  then show ?thesis by (cases e) (simp_all add: refreshDevices_def)
next
  case (Inr found)
  obtain new equal where f: "fold (refreshStep (devices gp)) found (Map.empty, False) = (new, equal)"
    by (cases "fold (refreshStep (devices gp)) found (Map.empty, False)")
  with refreshStep_equal [of "devices gp" found Map.empty] have "equal = False" by simp
  with Inr f show ?thesis by (simp add: refreshDevices_def Let_def)
qed

text \<open>
  C1. The spec says that a refresh reports "unchanged" (\<^verbatim>\<open>true\<close>) exactly when the
  discovered ids are the ids of the previous refresh. In the code \<^verbatim>\<open>var equal bool\<close> starts
  as \<^verbatim>\<open>false\<close> and is only ever assigned \<^verbatim>\<open>false\<close>, so every successful refresh returns
  \<^verbatim>\<open>false\<close>: the second refresh of the test case \<^verbatim>\<open>simple\<close> on an unchanged file system
  finds the one id that the first refresh stored, and still reports a change.
\<close>

theorem refreshDevices_same_devices:
  "fst (refreshDevices sha1 exampleGlob (refreshedOnce sha1)) = Inr False
   \<and> dom (devices (snd (refreshDevices sha1 exampleGlob (refreshedOnce sha1))))
       = dom (devices (refreshedOnce sha1))
   \<and> dom (devices (refreshedOnce sha1)) = {Sprintf_x (sha1 ''0/dev/simple'')}"
  by (simp add: refreshedOnce_eq refreshDevices_def discover_simple refreshStep_def)

section \<open>Health\<close>

lemma addPath_Health: "addPath paths i kp s = Inr s' \<Longrightarrow> Health (snd s') = Health (snd s)"
  by (cases kp; cases s) (auto simp: addPath_def Let_def split: sum.splits if_splits)

lemma buildDevice_Healthy:
  assumes "buildDevice sha1 grp paths i j = Inr d"
  shows "Health d = Healthy"
proof -
  from assms obtain h d0 where
    loop: "forEach (addPath paths i) (enumerate 0 (Paths grp))
             (FormatUint j, \<lparr>ID = [], Health = Healthy, deviceSpecs = [], mounts = []\<rparr>) = Inr (h, d0)"
    and d: "d = d0\<lparr>ID := Sprintf_x (sha1 h)\<rparr>"
    by (auto simp: buildDevice_def split: sum.splits)
  have "Health (snd (h, d0)) = Healthy"
    by (rule forEach_invariant [OF loop, where P = "\<lambda>s. Health (snd s) = Healthy"])
      (simp_all add: addPath_Health)
  with d show ?thesis by simp
qed

lemma appendDevice_Healthy:
  "appendDevice sha1 grp paths i j devs = Inr devs' \<Longrightarrow>
   \<forall>d\<in>set devs. Health d = Healthy \<Longrightarrow> \<forall>d\<in>set devs'. Health d = Healthy"
  by (auto simp: appendDevice_def split: sum.splits dest: buildDevice_Healthy)

lemma discoverGroup_Healthy:
  assumes "discoverGroup sha1 glob grp devs = Inr devs'" and "\<forall>d\<in>set devs. Health d = Healthy"
  shows "\<forall>d\<in>set devs'. Health d = Healthy"
proof -
  from assms(1) obtain paths len where
    loop: "forEach (\<lambda>i. forEach (appendDevice sha1 grp paths i) [0..<Count grp]) [0..<len] devs = Inr devs'"
    by (auto simp: discoverGroup_def split: sum.splits)
  show ?thesis
  proof (rule forEach_invariant [OF loop, where P = "\<lambda>ds. \<forall>d\<in>set ds. Health d = Healthy"])
    show "\<forall>d\<in>set devs. Health d = Healthy" by (rule assms(2))
  next
    fix i t t'
    assume t: "\<forall>d\<in>set t. Health d = Healthy"
      and inner: "forEach (appendDevice sha1 grp paths i) [0..<Count grp] t = Inr t'"
    show "\<forall>d\<in>set t'. Health d = Healthy"
      by (rule forEach_invariant [OF inner, where P = "\<lambda>ds. \<forall>d\<in>set ds. Health d = Healthy"])
        (use t in \<open>auto dest: appendDevice_Healthy\<close>)
  qed
qed

lemma discover_Healthy:
  assumes "discover sha1 glob spec = Inr devs"
  shows "\<forall>d\<in>set devs. Health d = Healthy"
proof -
  from assms have loop: "forEach (discoverGroup sha1 glob) (Groups spec) [] = Inr devs"
    by (simp add: discover_def)
  show ?thesis
    by (rule forEach_invariant [OF loop, where P = "\<lambda>ds. \<forall>d\<in>set ds. Health d = Healthy"])
      (auto dest: discoverGroup_Healthy)
qed

lemma refreshDevices_allHealthy:
  assumes "allHealthy gp"
  shows "allHealthy (snd (refreshDevices sha1 glob gp))"
proof (cases "discover sha1 glob (ds gp)")
  case (Inl e)
  with assms show ?thesis by (cases e) (simp_all add: refreshDevices_def)
next
  case (Inr found)
  obtain new equal where f: "fold (refreshStep (devices gp)) found (Map.empty, False) = (new, equal)"
    by (cases "fold (refreshStep (devices gp)) found (Map.empty, False)")
  have new: "\<forall>k d. new k = Some d \<longrightarrow> Health d = Healthy"
  proof (intro allI impI)
    fix k d assume "new k = Some d"
    with f have "fst (fold (refreshStep (devices gp)) found (Map.empty, False)) k = Some d" by simp
    from refreshStep_new [OF this] have "d \<in> set found" by simp
    with discover_Healthy [OF Inr] show "Health d = Healthy" by blast
  qed
  have "devices (snd (refreshDevices sha1 glob gp)) = new"
    using Inr f by (simp add: refreshDevices_def Let_def)
  with new show ?thesis by (simp add: allHealthy_def)
qed

lemma Allocate_devices: "devices (snd (Allocate gp req)) = devices gp"
  by (simp add: Allocate_def split: sum.splits)

lemma reachable_allHealthy: "reachable gp \<Longrightarrow> allHealthy gp"
proof (induction rule: reachable.induct)
  case (reachable_new spec)
  show ?case by (simp add: allHealthy_def NewGenericPlugin_def)
next
  case (reachable_refresh gp sha1 glob)
  then show ?case by (simp add: refreshDevices_allHealthy)
next
  case (reachable_Allocate gp req)
  then show ?case by (simp add: allHealthy_def Allocate_devices)
qed

lemma allocateID_error:
  "allHealthy gp \<Longrightarrow> forEach (allocateID gp) r resp = Inl err \<Longrightarrow> \<exists>k. err = DeviceDoesNotExist k"
proof (induction r arbitrary: resp)
  case Nil
  then show ?case by simp
next
  case (Cons a r)
  then show ?case
    by (auto simp: allocateID_def allHealthy_def split: sum.splits option.splits if_splits)
qed

lemma allocateContainer_error:
  "allHealthy gp \<Longrightarrow> forEach (allocateContainer gp) req res = Inl err \<Longrightarrow> \<exists>k. err = DeviceDoesNotExist k"
proof (induction req arbitrary: res)
  case Nil
  then show ?case by simp
next
  case (Cons r req)
  show ?case
  proof (cases "allocateContainer gp r res")
    case (Inl e)
    with Cons.prems(2) have "forEach (allocateID gp) r \<lparr>Devices = [], Mounts = []\<rparr> = Inl err"
      by (auto simp: allocateContainer_def split: sum.splits)
    from allocateID_error [OF Cons.prems(1) this] show ?thesis .
  next
    case (Inr res')
    with Cons.prems(2) have "forEach (allocateContainer gp) req res' = Inl err" by simp
    from Cons.IH [OF Cons.prems(1) this] show ?thesis .
  qed
qed

text \<open>
  C10. In every state that a plugin reaches from its creation by refreshes and
  allocations, every device of the device map has the health \<^verbatim>\<open>Healthy\<close> (which is also
  what \<^verbatim>\<open>GetDeviceState\<close> answers), every further refresh keeps it so, and \<^verbatim>\<open>Allocate\<close> never
  returns the error "requested device is not healthy".
\<close>

theorem reachable_devices_Healthy:
  assumes "reachable gp"
  shows "(\<forall>k d. devices gp k = Some d \<longrightarrow> Health d = Healthy \<and> GetDeviceState gp k = Healthy)
    \<and> (\<forall>sha1 glob. allHealthy (snd (refreshDevices sha1 glob gp)))
    \<and> (\<forall>req k. fst (Allocate gp req) \<noteq> Inl (DeviceNotHealthy k))"
proof -
  from assms have inv: "allHealthy gp" by (rule reachable_allHealthy)
  have "fst (Allocate gp req) \<noteq> Inl (DeviceNotHealthy k)" for req k
  proof
    assume "fst (Allocate gp req) = Inl (DeviceNotHealthy k)"
    then have "forEach (allocateContainer gp) req [] = Inl (DeviceNotHealthy k)"
      by (simp add: Allocate_def split: sum.splits)
    from allocateContainer_error [OF inv this] show False by simp
  qed
  with inv refreshDevices_allHealthy [OF inv] show ?thesis
    by (simp add: allHealthy_def GetDeviceState_def)
qed

text \<open>
  The plugin of the test case \<^verbatim>\<open>simple\<close> after its first refresh: a reachable state with
  one device, which is healthy and can be allocated.
\<close>

theorem reachable_devices_Healthy_witness:
  "\<forall>sha1. reachable (refreshedOnce sha1)
     \<and> (\<exists>d. devices (refreshedOnce sha1) (Sprintf_x (sha1 ''0/dev/simple'')) = Some d \<and> Health d = Healthy)
     \<and> fst (Allocate (refreshedOnce sha1) [[Sprintf_x (sha1 ''0/dev/simple'')]])
         \<noteq> Inl (DeviceNotHealthy (Sprintf_x (sha1 ''0/dev/simple'')))"
proof
  fix sha1
  have r: "reachable (refreshedOnce sha1)"
    unfolding refreshedOnce_def by (intro reachable.intros)
  have stored: "\<exists>d. devices (refreshedOnce sha1) (Sprintf_x (sha1 ''0/dev/simple'')) = Some d"
    by (simp add: refreshedOnce_eq)
  from reachable_devices_Healthy [OF r] stored r
  show "reachable (refreshedOnce sha1)
     \<and> (\<exists>d. devices (refreshedOnce sha1) (Sprintf_x (sha1 ''0/dev/simple'')) = Some d \<and> Health d = Healthy)
     \<and> fst (Allocate (refreshedOnce sha1) [[Sprintf_x (sha1 ''0/dev/simple'')]])
         \<noteq> Inl (DeviceNotHealthy (Sprintf_x (sha1 ''0/dev/simple'')))"
    by blast
qed

section \<open>Allocation\<close>

lemma allocateID_loop_ok:
  "\<forall>devID\<in>set r. \<exists>d. devices gp devID = Some d \<and> Health d = Healthy \<Longrightarrow>
   forEach (allocateID gp) r resp =
     Inr (resp\<lparr>Devices := Devices resp @ concat (map (requestedSpecs gp) r),
              Mounts := Mounts resp @ concat (map (requestedMounts gp) r)\<rparr>)"
proof (induction r arbitrary: resp)
  case Nil
  then show ?case by simp
next
  case (Cons a r)
  from Cons.prems obtain d where d: "devices gp a = Some d" "Health d = Healthy" by auto
  have step: "allocateID gp a resp = Inr (resp\<lparr>Devices := Devices resp @ deviceSpecs d, Mounts := Mounts resp @ mounts d\<rparr>)"
    by (simp add: allocateID_def d)
  from Cons.prems have rest: "\<forall>devID\<in>set r. \<exists>d. devices gp devID = Some d \<and> Health d = Healthy" by simp
  show ?case
    by (simp add: step Cons.IH [OF rest] requestedSpecs_def requestedMounts_def d)
qed

lemma allocateID_loop_missing:
  "\<exists>devID\<in>set r. devices gp devID = None \<Longrightarrow> \<exists>err. forEach (allocateID gp) r resp = Inl err"
proof (induction r arbitrary: resp)
  case Nil
  then show ?case by simp
next
  case (Cons a r)
  show ?case
  proof (cases "allocateID gp a resp")
    case (Inl e)
    then show ?thesis by simp
  next
    case (Inr resp')
    then have "devices gp a \<noteq> None" by (auto simp: allocateID_def split: option.splits)
    with Cons.prems have "\<exists>devID\<in>set r. devices gp devID = None" by auto
    from Cons.IH [OF this] Inr show ?thesis by simp
  qed
qed

lemma allocateContainer_loop_ok:
  "\<forall>r\<in>set req. \<forall>devID\<in>set r. \<exists>d. devices gp devID = Some d \<and> Health d = Healthy \<Longrightarrow>
   forEach (allocateContainer gp) req res =
     Inr (res @ map (\<lambda>r. \<lparr>Devices = concat (map (requestedSpecs gp) r),
                          Mounts = concat (map (requestedMounts gp) r)\<rparr>) req)"
proof (induction req arbitrary: res)
  case Nil
  then show ?case by simp
next
  case (Cons r req)
  from Cons.prems have hd: "\<forall>devID\<in>set r. \<exists>d. devices gp devID = Some d \<and> Health d = Healthy"
    and tl: "\<forall>r\<in>set req. \<forall>devID\<in>set r. \<exists>d. devices gp devID = Some d \<and> Health d = Healthy"
    by simp_all
  have step: "allocateContainer gp r res =
      Inr (res @ [\<lparr>Devices = concat (map (requestedSpecs gp) r),
                    Mounts = concat (map (requestedMounts gp) r)\<rparr>])"
    by (simp add: allocateContainer_def allocateID_loop_ok [OF hd])
  show ?case
    by (simp add: step Cons.IH [OF tl])
qed

lemma allocateContainer_loop_missing:
  "\<exists>r\<in>set req. \<exists>devID\<in>set r. devices gp devID = None \<Longrightarrow>
   \<exists>err. forEach (allocateContainer gp) req res = Inl err"
proof (induction req arbitrary: res)
  case Nil
  then show ?case by simp
next
  case (Cons r req)
  show ?case
  proof (cases "allocateContainer gp r res")
    case (Inl e)
    then show ?thesis by simp
  next
    case (Inr res')
    have "\<not> (\<exists>devID\<in>set r. devices gp devID = None)"
    proof
      assume "\<exists>devID\<in>set r. devices gp devID = None"
      from allocateID_loop_missing [OF this] obtain err
        where "forEach (allocateID gp) r \<lparr>Devices = [], Mounts = []\<rparr> = Inl err" by blast
      with Inr show False by (simp add: allocateContainer_def)
    qed
    with Cons.prems have "\<exists>r\<in>set req. \<exists>devID\<in>set r. devices gp devID = None" by auto
    from Cons.IH [OF this] Inr show ?thesis by simp
  qed
qed

text \<open>
  C7. If some requested id of some container request is not in the device map, \<^verbatim>\<open>Allocate\<close>
  returns an error and no response, and leaves the plugin as it was. If every requested
  id is in the map and healthy, the response has one entry per container request, in the
  order of the request, holding the device specs and the mounts of the requested devices
  as the map has them, in the order of the ids, an id requested twice contributing twice.
\<close>

theorem Allocate_all_or_nothing:
  "((\<exists>r\<in>set req. \<exists>devID\<in>set r. devices gp devID = None) \<longrightarrow>
      (\<exists>err. Allocate gp req = (Inl err, gp)))
   \<and> ((\<forall>r\<in>set req. \<forall>devID\<in>set r. \<exists>d. devices gp devID = Some d \<and> Health d = Healthy) \<longrightarrow>
      fst (Allocate gp req) =
        Inr (map (\<lambda>r. \<lparr>Devices = concat (map (requestedSpecs gp) r),
                        Mounts = concat (map (requestedMounts gp) r)\<rparr>) req))"
proof (intro conjI impI)
  assume "\<exists>r\<in>set req. \<exists>devID\<in>set r. devices gp devID = None"
  from allocateContainer_loop_missing [OF this] obtain err
    where "forEach (allocateContainer gp) req [] = Inl err" by blast
  then show "\<exists>err. Allocate gp req = (Inl err, gp)" by (simp add: Allocate_def)
next
  assume "\<forall>r\<in>set req. \<forall>devID\<in>set r. \<exists>d. devices gp devID = Some d \<and> Health d = Healthy"
  from allocateContainer_loop_ok [OF this, of "[]"]
  show "fst (Allocate gp req) =
        Inr (map (\<lambda>r. \<lparr>Devices = concat (map (requestedSpecs gp) r),
                        Mounts = concat (map (requestedMounts gp) r)\<rparr>) req)"
    by (simp add: Allocate_def)
qed

text \<open>
  On an inventory with the device \<^verbatim>\<open>a\<close>: a request for \<^verbatim>\<open>a\<close> and the unknown \<^verbatim>\<open>b\<close> fails as
  a whole, and a request for \<^verbatim>\<open>a\<close> twice in one container gets its device spec and its
  mount twice.
\<close>

theorem Allocate_all_or_nothing_witness:
  "(\<exists>err. Allocate exampleInventory [[''a''], [''b'']] = (Inl err, exampleInventory))
   \<and> fst (Allocate exampleInventory [[''a'', ''a''], []]) =
       Inr [\<lparr>Devices = [\<lparr>ContainerPath = ''/dev/simple'', HostPath = ''/dev/simple'', ds_Permissions = ''mrw''\<rparr>,
                        \<lparr>ContainerPath = ''/dev/simple'', HostPath = ''/dev/simple'', ds_Permissions = ''mrw''\<rparr>],
             Mounts = [\<lparr>mnt_ContainerPath = ''/data'', mnt_HostPath = ''/srv/data'', mnt_ReadOnly = True\<rparr>,
                       \<lparr>mnt_ContainerPath = ''/data'', mnt_HostPath = ''/srv/data'', mnt_ReadOnly = True\<rparr>]\<rparr>,
            \<lparr>Devices = [], Mounts = []\<rparr>]"
proof -
  have missing: "\<exists>r\<in>set [[''a''], [''b'']]. \<exists>devID\<in>set r. devices exampleInventory devID = None"
    by (simp add: exampleInventory_def)
  have present: "\<forall>r\<in>set [[''a'', ''a''], []]. \<forall>devID\<in>set r.
      \<exists>d. devices exampleInventory devID = Some d \<and> Health d = Healthy"
    by (simp add: exampleInventory_def)
  from Allocate_all_or_nothing [of "[[''a''], [''b'']]" exampleInventory] missing
  have failed: "\<exists>err. Allocate exampleInventory [[''a''], [''b'']] = (Inl err, exampleInventory)"
    by blast
  from Allocate_all_or_nothing [of "[[''a'', ''a''], []]" exampleInventory] present
  have "fst (Allocate exampleInventory [[''a'', ''a''], []]) =
      Inr (map (\<lambda>r. \<lparr>Devices = concat (map (requestedSpecs exampleInventory) r),
                      Mounts = concat (map (requestedMounts exampleInventory) r)\<rparr>) [[''a'', ''a''], []])"
    by blast
  with failed show ?thesis
    by (simp add: requestedSpecs_def requestedMounts_def exampleInventory_def)
qed

section \<open>Searching the enumerated USB devices\<close>

lemma searchUSBDevices_loop:
  "fold (\<lambda>dev found. if P dev then found @ [dev] else found) devs acc = acc @ filter P devs"
  by (induction devs arbitrary: acc) simp_all

lemma ParseUint_1050: "ParseUint_16_16 ''1050'' = Inr 0x1050"
  by (simp add: ParseUint_16_16_def parseDigit_def hexValue_def)

lemma ParseUint_0407: "ParseUint_16_16 ''0407'' = Inr 0x0407"
  by (simp add: ParseUint_16_16_def parseDigit_def hexValue_def)

lemma queriedDevices_serialCase:
  "queriedDevices serialCase =
     [\<lparr>Vendor = 0x1050, Product = 0x0407, Bus = 3, BusDevice = 0x22\<rparr>,
      \<lparr>Vendor = 0x1050, Product = 0x0407, Bus = 4, BusDevice = 0x25\<rparr>]"
  by (simp add: queriedDevices_def serialCase_def queryUSBDeviceCharacteristicsByDirectory_def
      readFileToUint16_def ParseUint_16_16_def parseDigit_def hexValue_def)

text \<open>
  C8. The spec says that for a \<^verbatim>\<open>USBSpec\<close> with a serial the search returns the devices
  that match on vendor, product and serial, and none when no serial matches. In the code
  a \<^verbatim>\<open>USBSpec\<close> has a vendor and a product and no serial, a \<^verbatim>\<open>usbDevice\<close> has no serial, and
  the query of a device directory does not read the file \<^verbatim>\<open>serial\<close>. What the code does:
  for every list of enumerated devices, the search returns exactly the devices whose
  vendor and product equal the arguments, in the order of the enumeration, whatever
  their serial attribute.
\<close>

theorem searchUSBDevices_vendor_product:
  "searchUSBDevices devs vendor product =
     Inr (filter (\<lambda>dev. Vendor dev = vendor \<and> Product dev = product) devs)"
  by (simp add: searchUSBDevices_def searchUSBDevices_loop)

text \<open>
  The device directories of the case \<^verbatim>\<open>serial\<close> of \<^verbatim>\<open>usb_test.go\<close>: both devices have the
  vendor \<^verbatim>\<open>1050\<close> and the product \<^verbatim>\<open>0407\<close>, the serial attributes are \<^verbatim>\<open>51\<close> and \<^verbatim>\<open>52\<close>. As C8
  words the search, the serial \<^verbatim>\<open>52\<close> selects the second device alone and the serial \<^verbatim>\<open>53\<close>
  none; the search of the code returns both devices, in either order of enumeration.
  (The code reads \<^verbatim>\<open>devnum\<close> as hexadecimal, so the device numbers are \<^verbatim>\<open>0x22\<close> and \<^verbatim>\<open>0x25\<close>.)
\<close>

theorem searchUSBDevices_serial_counterexample:
  "searchUSBDevices (queriedDevices serialCase) 0x1050 0x0407 =
     Inr [\<lparr>Vendor = 0x1050, Product = 0x0407, Bus = 3, BusDevice = 0x22\<rparr>,
          \<lparr>Vendor = 0x1050, Product = 0x0407, Bus = 4, BusDevice = 0x25\<rparr>]
   \<and> spec_searchUSBDevices serialCase 0x1050 0x0407 ''52'' =
       [\<lparr>Vendor = 0x1050, Product = 0x0407, Bus = 4, BusDevice = 0x25\<rparr>]
   \<and> searchUSBDevices (queriedDevices serialCase) 0x1050 0x0407
       \<noteq> Inr (spec_searchUSBDevices serialCase 0x1050 0x0407 ''52'')
   \<and> spec_searchUSBDevices serialCase 0x1050 0x0407 ''53'' = []
   \<and> searchUSBDevices (rev (queriedDevices serialCase)) 0x1050 0x0407
       \<noteq> Inr (spec_searchUSBDevices (rev serialCase) 0x1050 0x0407 ''53'')"
proof -
  have spec52: "spec_searchUSBDevices serialCase 0x1050 0x0407 ''52'' =
       [\<lparr>Vendor = 0x1050, Product = 0x0407, Bus = 4, BusDevice = 0x25\<rparr>]"
    by (simp add: spec_searchUSBDevices_def serialAttribute_def serialCase_def
        queryUSBDeviceCharacteristicsByDirectory_def
        readFileToUint16_def ParseUint_16_16_def parseDigit_def hexValue_def)
  have spec53: "spec_searchUSBDevices serialCase 0x1050 0x0407 ''53'' = []"
    by (simp add: spec_searchUSBDevices_def serialAttribute_def serialCase_def
        queryUSBDeviceCharacteristicsByDirectory_def
        readFileToUint16_def ParseUint_16_16_def parseDigit_def hexValue_def)
  have spec53r: "spec_searchUSBDevices (rev serialCase) 0x1050 0x0407 ''53'' = []"
    by (simp add: spec_searchUSBDevices_def serialAttribute_def serialCase_def
        queryUSBDeviceCharacteristicsByDirectory_def
        readFileToUint16_def ParseUint_16_16_def parseDigit_def hexValue_def)
  show ?thesis
    by (simp add: spec52 spec53 spec53r queriedDevices_serialCase searchUSBDevices_def)
qed

end
